theory Spec2Isabelle
  imports Complex_Main "HOL-Library.Multiset"
begin

section \<open>Run-time errors\<close>

text \<open>
  The exceptions that the modelled code paths can raise, either in the interpreter
  (integer division by zero, an index out of range, an unbound name) or inside numpy and scipy
  (an empty reduction, an empty concatenation, a negative array length, a diagonal
  outside the matrix). A computation that may raise returns \<open>error + 'a\<close>; \<open>Inl\<close> is
  the exception.

  A floating-point number is modelled as the real number it denotes; NaN and
  infinities are outside this development. The arithmetic of this code is exact on
  the inputs considered. Where a library rounds (the distances of scikit-learn), its
  result is a parameter of the construction that consumes it.
\<close>

datatype error = ValueError | IndexError | ZeroDivisionError | NameError

fun and_then :: "error + 'a \<Rightarrow> ('a \<Rightarrow> error + 'b) \<Rightarrow> error + 'b" where
  "and_then (Inl e) f = Inl e"
| "and_then (Inr x) f = f x"

text \<open>Evaluating a list of computations from left to right; the first exception aborts.\<close>

fun collect :: "(error + 'a) list \<Rightarrow> error + 'a list" where
  "collect [] = Inr []"
| "collect (c # cs) =
     (case c of
        Inl e \<Rightarrow> Inl e
      | Inr x \<Rightarrow> (case collect cs of Inl e \<Rightarrow> Inl e | Inr xs \<Rightarrow> Inr (x # xs)))"

text \<open>\<^verbatim>\<open>np.concatenate\<close>: raises ValueError on an empty sequence of arrays.\<close>

definition np_concatenate :: "'a list list \<Rightarrow> error + 'a list" where
  "np_concatenate arrays = (if arrays = [] then Inl ValueError else Inr (concat arrays))"

text \<open>\<^verbatim>\<open>np.zeros(n)\<close>: a negative length raises ValueError; the result is the
  length of the new array, whose entries the loop then assigns one by one.\<close>

definition np_alloc :: "int \<Rightarrow> error + nat" where
  "np_alloc n = (if n < 0 then Inl ValueError else Inr (nat n))"

text \<open>Indexing a one-dimensional array with an integer: negative indices count from
  the end, anything else out of range raises IndexError.\<close>

definition getitem :: "'a list \<Rightarrow> int \<Rightarrow> error + 'a" where
  "getitem xs i =
     (if 0 \<le> i \<and> i < int (length xs) then Inr (xs ! nat i)
      else if i < 0 \<and> - int (length xs) \<le> i then Inr (xs ! nat (int (length xs) + i))
      else Inl IndexError)"

text \<open>A float used as an index is converted to an integer by truncation toward zero
  (the numpy releases this Python 2 script runs on accept a float index).\<close>

definition float_index :: "real \<Rightarrow> int" where
  "float_index x = (if 0 \<le> x then \<lfloor>x\<rfloor> else \<lceil>x\<rceil>)"


section \<open>mass\_univariate.py: the permutation run\<close>

text \<open>
  \<^verbatim>\<open>np.abs(cluster_statistic_i).max()\<close> (lines 85 and 97): the maximum of an empty
  array raises ValueError in numpy.
\<close>

definition abs_max :: "real list \<Rightarrow> error + real" where
  "abs_max cluster_statistic =
     (if cluster_statistic = [] then Inl ValueError
      else Inr (Max (set (map abs cluster_statistic))))"

text \<open>
  One permutation iteration (lines 83--85 and 95--97). \<open>permutation\<close> is
  \<^verbatim>\<open>np.random.permutation(yy)\<close>: it reads the process-wide generator state \<open>'s\<close>
  and leaves a new one. \<open>ttest_clusters\<close> is \<^verbatim>\<open>compute_ttest_clusters\<close> applied to the
  fixed data, threshold and proximity matrix; it returns the clusters and their
  statistics.
\<close>

definition iteration ::
  "('s \<Rightarrow> 'y \<times> 's) \<Rightarrow> ('y \<Rightarrow> error + (nat list list \<times> real list)) \<Rightarrow> 's \<Rightarrow> error + (real \<times> 's)" where
  "iteration permutation ttest_clusters st =
     (let (y, st') = permutation st
      in and_then (ttest_clusters y) (\<lambda>(clusters_i, cluster_statistic_i).
           and_then (abs_max cluster_statistic_i) (\<lambda>v. Inr (v, st'))))"

text \<open>The \<^verbatim>\<open>for\<close> loop of the batch function (lines 94--97) over \<open>n\<close>
  iterations, filling the array from index 0.\<close>

fun permutation_loop ::
  "('s \<Rightarrow> 'y \<times> 's) \<Rightarrow> ('y \<Rightarrow> error + (nat list list \<times> real list)) \<Rightarrow> nat \<Rightarrow> 's
     \<Rightarrow> error + (real list \<times> 's)" where
  "permutation_loop permutation ttest_clusters 0 st = Inr ([], st)"
| "permutation_loop permutation ttest_clusters (Suc n) st =
     and_then (iteration permutation ttest_clusters st) (\<lambda>(v, st').
       and_then (permutation_loop permutation ttest_clusters n st') (\<lambda>(vs, st'').
         Inr (v # vs, st'')))"

text \<open>
  Line 82 of the sequential branch calls \<^verbatim>\<open>stdout.flush()\<close>, but
  \<^verbatim>\<open>mass_univariate.py\<close> never imports \<^verbatim>\<open>stdout\<close> (only
  \<^verbatim>\<open>proximity.py\<close> does): evaluating the name raises NameError.
\<close>

definition stdout_flush :: "error + unit" where
  "stdout_flush = Inl NameError"

text \<open>The loop of the sequential branch (lines 80--85): each iteration first runs
  line 82, then draws the permutation and records the value.\<close>

fun sequential_loop ::
  "('s \<Rightarrow> 'y \<times> 's) \<Rightarrow> ('y \<Rightarrow> error + (nat list list \<times> real list)) \<Rightarrow> nat \<Rightarrow> 's
     \<Rightarrow> error + (real list \<times> 's)" where
  "sequential_loop permutation ttest_clusters 0 st = Inr ([], st)"
| "sequential_loop permutation ttest_clusters (Suc n) st =
     and_then stdout_flush (\<lambda>u.
       and_then (iteration permutation ttest_clusters st) (\<lambda>(v, st').
         and_then (sequential_loop permutation ttest_clusters n st') (\<lambda>(vs, st'').
           Inr (v # vs, st''))))"

text \<open>The sequential branch (lines 79--85): \<^verbatim>\<open>np.zeros(iterations)\<close>, then the loop.\<close>

definition sequential_permutations ::
  "('s \<Rightarrow> 'y \<times> 's) \<Rightarrow> ('y \<Rightarrow> error + (nat list list \<times> real list)) \<Rightarrow> 's \<Rightarrow> int
     \<Rightarrow> error + real list" where
  "sequential_permutations permutation ttest_clusters st iterations =
     and_then (np_alloc iterations) (\<lambda>n.
       and_then (sequential_loop permutation ttest_clusters n st) (\<lambda>(vs, st'). Inr vs))"

text \<open>\<^verbatim>\<open>ttest_cluster_statistic_permuted_batch\<close> (lines 92--98); \<open>st\<close> is the generator
  state of the process that runs the batch.\<close>

definition ttest_cluster_statistic_permuted_batch ::
  "('s \<Rightarrow> 'y \<times> 's) \<Rightarrow> ('y \<Rightarrow> error + (nat list list \<times> real list)) \<Rightarrow> int \<Rightarrow> 's
     \<Rightarrow> error + real list" where
  "ttest_cluster_statistic_permuted_batch permutation ttest_clusters batch_size st =
     and_then (np_alloc batch_size) (\<lambda>n.
       and_then (permutation_loop permutation ttest_clusters n st) (\<lambda>(vs, st'). Inr vs))"

text \<open>
  The parallel branch (lines 90--101). Line 91 already evaluates
  \<^verbatim>\<open>iterations/batch_size\<close>, Python 2 floor division, which raises for a zero
  divisor. \<^verbatim>\<open>range(iterations/batch_size)\<close> batches are submitted, each of
  \<open>batch_size\<close> iterations; the results come back in submission order and are
  concatenated. The batch function never seeds the generator, so batch \<open>i\<close> draws from
  whatever state its worker process is in when the batch starts: \<open>worker_state i\<close>,
  which the process pool decides, not this code.
\<close>

definition parallel_permutations ::
  "('s \<Rightarrow> 'y \<times> 's) \<Rightarrow> ('y \<Rightarrow> error + (nat list list \<times> real list)) \<Rightarrow> (nat \<Rightarrow> 's) \<Rightarrow> int \<Rightarrow> int
     \<Rightarrow> error + real list" where
  "parallel_permutations permutation ttest_clusters worker_state iterations batch_size =
     (if batch_size = 0 then Inl ZeroDivisionError
      else
        and_then
          (collect
             (map (\<lambda>i. ttest_cluster_statistic_permuted_batch permutation ttest_clusters
                          batch_size (worker_state i))
                  [0..<nat (iterations div batch_size)]))
          np_concatenate)"


section \<open>mass\_univariate.py: the critical value\<close>

text \<open>Line 103: the sorted null array indexed by the float
  \<^verbatim>\<open>iterations * (1.0 - p_value_threshold)\<close>.\<close>

definition cluster_statistic_threshold :: "real list \<Rightarrow> int \<Rightarrow> real \<Rightarrow> error + real" where
  "cluster_statistic_threshold max_cluster_statistic iterations p_value_threshold =
     getitem (sort max_cluster_statistic)
       (float_index (of_int iterations * (1 - p_value_threshold)))"


section \<open>proximity.py: the spatial proximity matrix\<close>

text \<open>
  A unit's coordinates are a vector of reals. \<^verbatim>\<open>pairwise_distances\<close> (scikit-learn,
  default metric) returns the matrix of Euclidean distances between the rows. It is
  read here as the exact distance. scikit-learn computes it in 64-bit floats as
  \<open>(-2 x\<cdot>y + |x|\<^sup>2) + |y|\<^sup>2\<close>, whose rounding can differ between the entries
  \<open>(i, j)\<close> and \<open>(j, i)\<close> and from the direct differences of the KD-tree; what
  depends on those last bits is stated on \<open>proximity_from_distances\<close> and
  \<open>proximity_from_neighbors\<close> below, which take the library's result as given.
\<close>

type_synonym point = "real list"

definition euclidean :: "point \<Rightarrow> point \<Rightarrow> real" where
  "euclidean a b = sqrt (\<Sum>(x, y)\<leftarrow>zip a b. (x - y)\<^sup>2)"

definition pairwise_distances :: "point list \<Rightarrow> real list list" where
  "pairwise_distances coordinates = map (\<lambda>a. map (euclidean a) coordinates) coordinates"

text \<open>Lines 17--18, on the distance matrix \<open>dm\<close> that line 16 obtained:
  \<^verbatim>\<open>dm <= threshold\<close>, cast to integers 0 and 1.\<close>

definition proximity_from_distances :: "real list list \<Rightarrow> real \<Rightarrow> int list list" where
  "proximity_from_distances dm threshold =
     map (map (\<lambda>d. if d \<le> threshold then 1 else 0)) dm"

text \<open>Lines 16--18, with line 16 read as exact Euclidean distances.\<close>

definition compute_boolean_proximity_matrix :: "point list \<Rightarrow> real \<Rightarrow> int list list" where
  "compute_boolean_proximity_matrix coordinates threshold =
     proximity_from_distances (pairwise_distances coordinates) threshold"

text \<open>
  A sparse boolean matrix (scipy's coo, csc, bsr and lil formats alike): its shape and
  the positions that hold True. A position may be listed more than once.
\<close>

record bool_matrix =
  nrows :: nat
  ncols :: nat
  entries :: "(nat \<times> nat) list"

definition stored :: "bool_matrix \<Rightarrow> nat \<Rightarrow> nat \<Rightarrow> bool" where
  "stored M i j = ((i, j) \<in> set (entries M))"

text \<open>
  \<^verbatim>\<open>KDTree(coordinates).query_radius(coordinates, r)\<close> (scikit-learn): for each point,
  the indices of the points within distance \<open>r\<close> of it, the boundary included.
\<close>

definition query_radius :: "point list \<Rightarrow> real \<Rightarrow> nat list list" where
  "query_radius coordinates r =
     map (\<lambda>a. filter (\<lambda>j. euclidean a (coordinates ! j) \<le> r) [0..<length coordinates])
       coordinates"

text \<open>Lines 40--44, on the neighbour lists that lines 38--39 obtained: the row index
  of each neighbour list is repeated once per neighbour, and the pairs (row, column)
  are the True positions of a matrix with one row and one column per unit.\<close>

definition proximity_from_neighbors :: "nat \<Rightarrow> nat list list \<Rightarrow> error + bool_matrix" where
  "proximity_from_neighbors n_units neighbors =
     and_then
       (np_concatenate (map (\<lambda>(i, item). replicate (length item) i) (enumerate 0 neighbors)))
       (\<lambda>row. and_then (np_concatenate neighbors)
          (\<lambda>column. Inr \<lparr>nrows = n_units, ncols = n_units, entries = zip row column\<rparr>))"

text \<open>Lines 38--44, with the radius query read as exact Euclidean distances.\<close>

definition compute_sparse_boolean_proximity_matrix :: "point list \<Rightarrow> real \<Rightarrow> error + bool_matrix" where
  "compute_sparse_boolean_proximity_matrix coordinates threshold =
     proximity_from_neighbors (length coordinates) (query_radius coordinates threshold)"


section \<open>proximity.py: the space-time proximity matrix\<close>

text \<open>The spatial matrix is a dense integer array or a sparse matrix, depending on
  \<^verbatim>\<open>space_sparse\<close>; \<^verbatim>\<open>.nonzero()\<close> gives the row and the column indices of its
  non-zero positions.\<close>

datatype space_matrix = Dense "int list list" | Sparse bool_matrix

fun nonzero :: "space_matrix \<Rightarrow> nat list \<times> nat list" where
  "nonzero (Dense m) =
     (let positions =
        concat (map (\<lambda>(i, r). map (\<lambda>j. (i, j)) (filter (\<lambda>j. r ! j \<noteq> 0) [0..<length r]))
                  (enumerate 0 m))
      in (map fst positions, map snd positions))"
| "nonzero (Sparse M) = (map fst (entries M), map snd (entries M))"

text \<open>\<^verbatim>\<open>np.ones(n, dtype=np.bool)\<close>: a negative length raises ValueError.\<close>

definition np_ones :: "int \<Rightarrow> error + bool list" where
  "np_ones n = (if n < 0 then Inl ValueError else Inr (replicate (nat n) True))"

text \<open>Assigning one position of a sparse boolean matrix.\<close>

definition setitem :: "bool_matrix \<Rightarrow> nat \<Rightarrow> nat \<Rightarrow> bool \<Rightarrow> bool_matrix" where
  "setitem M i j v =
     M\<lparr>entries := (if v then (i, j) # entries M else removeAll (i, j) (entries M))\<rparr>"

text \<open>
  scipy's \<^verbatim>\<open>setdiag(values, k)\<close>: a diagonal that lies outside the matrix raises
  ValueError; otherwise the first \<open>min\<close>(diagonal length, \<open>len(values)\<close>) positions
  of diagonal \<open>k\<close> are assigned.
\<close>

definition setdiag :: "bool_matrix \<Rightarrow> bool list \<Rightarrow> int \<Rightarrow> error + bool_matrix" where
  "setdiag M vals k =
     (if (k > 0 \<and> k \<ge> int (ncols M)) \<or> (k < 0 \<and> - k \<ge> int (nrows M)) then Inl ValueError
      else if k < 0 then
        Inr (fold (\<lambda>i A. setitem A (i + nat (- k)) i (vals ! i))
               [0..<min (nrows M - nat (- k)) (min (ncols M) (length vals))] M)
      else
        Inr (fold (\<lambda>i A. setitem A i (i + nat k) (vals ! i))
               [0..<min (nrows M) (min (ncols M - nat k) (length vals))] M))"

text \<open>Lines 97--99: the loop over the temporal offsets \<open>k\<close>.\<close>

fun time_bands :: "nat \<Rightarrow> nat \<Rightarrow> int list \<Rightarrow> bool_matrix \<Rightarrow> error + bool_matrix" where
  "time_bands n_units n_timesteps [] M = Inr M"
| "time_bands n_units n_timesteps (k # ks) M =
     and_then (np_ones (int n_units * (int n_timesteps - k))) (\<lambda>upper.
       and_then (setdiag M upper (int n_units * k)) (\<lambda>M1.
         and_then (np_ones (int n_units * (int n_timesteps - k))) (\<lambda>lower.
           and_then (setdiag M1 lower (- (int n_units * k))) (\<lambda>M2.
             time_bands n_units n_timesteps ks M2))))"

text \<open>Lines 90--101, on the spatial matrix that lines 83--86 obtained.
  \<^verbatim>\<open>range(1, threshold_timesteps + 1)\<close> is \<open>[1..threshold_timesteps]\<close>.\<close>

definition space_time_matrix ::
  "space_matrix \<Rightarrow> nat \<Rightarrow> nat \<Rightarrow> int \<Rightarrow> error + bool_matrix" where
  "space_time_matrix proximity_matrix_space n_units n_timesteps threshold_timesteps =
     (let (x, y) = nonzero proximity_matrix_space
      in and_then (np_concatenate (map (\<lambda>t. map (\<lambda>a. a + t * n_units) x) [0..<n_timesteps]))
           (\<lambda>i. and_then
              (np_concatenate (map (\<lambda>t. map (\<lambda>a. a + t * n_units) y) [0..<n_timesteps]))
              (\<lambda>j. time_bands n_units n_timesteps [1..threshold_timesteps]
                      \<lparr>nrows = n_units * n_timesteps, ncols = n_units * n_timesteps,
                       entries = zip i j\<rparr>)))"

text \<open>Lines 83--101: the spatial matrix of the chosen strategy, then the space-time
  matrix over \<^verbatim>\<open>len(coordinates)\<close> units.\<close>

definition compute_sparse_boolean_proximity_matrix_space_time ::
  "point list \<Rightarrow> nat \<Rightarrow> real \<Rightarrow> int \<Rightarrow> bool \<Rightarrow> error + bool_matrix" where
  "compute_sparse_boolean_proximity_matrix_space_time coordinates n_timesteps threshold_space
       threshold_timesteps space_sparse =
     and_then
       (if space_sparse
        then and_then (compute_sparse_boolean_proximity_matrix coordinates threshold_space)
               (\<lambda>M. Inr (Sparse M))
        else Inr (Dense (compute_boolean_proximity_matrix coordinates threshold_space)))
       (\<lambda>proximity_matrix_space.
          space_time_matrix proximity_matrix_space (length coordinates) n_timesteps
            threshold_timesteps)"


section \<open>mass\_univariate.py: thresholding and clustering\<close>


text \<open>\<^verbatim>\<open>np.where(v <= c)[0]\<close>: the indices, in increasing order, at which the
  comparison holds.\<close>

definition where_le :: "real list \<Rightarrow> real \<Rightarrow> nat list" where
  "where_le v c = filter (\<lambda>i. v ! i \<le> c) [0..<length v]"





lemma and_then_Inr_iff:
  "and_then c f = Inr y \<longleftrightarrow> (\<exists>x. c = Inr x \<and> f x = Inr y)"
  by (cases c) auto


section \<open>Properties of the critical value\<close>






section \<open>Properties of the permutation run\<close>

lemma iteration_state:
  "iteration permutation tc st = Inr (v, st') \<Longrightarrow> st' = snd (permutation st)"
  by (auto simp: iteration_def and_then_Inr_iff split: prod.splits)

lemma permutation_loop_result:
  "permutation_loop permutation tc n st = Inr (vs, st') \<Longrightarrow>
     length vs = n \<and> st' = ((\<lambda>s. snd (permutation s)) ^^ n) st"
proof (induction n arbitrary: st vs st')
  case 0
  then show ?case by simp
next
  case (Suc n)
  from Suc.prems obtain v s1 ws where
    it: "iteration permutation tc st = Inr (v, s1)" and
    lp: "permutation_loop permutation tc n s1 = Inr (ws, st')" and
    vs: "vs = v # ws"
    by (auto simp: and_then_Inr_iff)
  define f where "f = (\<lambda>s. snd (permutation s))"
  have "(f ^^ Suc n) st = (f ^^ n) (f st)"
    by (simp add: funpow_swap1)
  with Suc.IH [OF lp] iteration_state [OF it] vs show ?case
    by (simp add: f_def)
qed

lemma permutation_loop_add:
  "permutation_loop permutation tc (m + n) st =
     and_then (permutation_loop permutation tc m st) (\<lambda>(vs, st').
       and_then (permutation_loop permutation tc n st') (\<lambda>(ws, st''). Inr (vs @ ws, st'')))"
proof (induction m arbitrary: st)
  case 0
  show ?case
    by (cases "permutation_loop permutation tc n st") auto
next
  case (Suc m)
  show ?case
  proof (cases "iteration permutation tc st")
    case (Inl e)
    then show ?thesis by simp
  next
    case (Inr r)
    obtain v s1 where r: "r = (v, s1)" by (cases r)
    show ?thesis
    proof (cases "permutation_loop permutation tc m s1")
      case (Inl e)
      then show ?thesis using Inr r Suc.IH [of s1] by simp
    next
      case lm: (Inr q)
      obtain vs s2 where q: "q = (vs, s2)" by (cases q)
      show ?thesis
      proof (cases "permutation_loop permutation tc n s2")
        case (Inl e)
        then show ?thesis using Inr r lm q Suc.IH [of s1] by simp
      next
        case ln: (Inr w)
        obtain ws s3 where w: "w = (ws, s3)" by (cases w)
        show ?thesis using Inr r lm q ln w Suc.IH [of s1] by simp
      qed
    qed
  qed
qed

lemma collect_snoc:
  "collect (cs @ [c]) =
     and_then (collect cs) (\<lambda>xs. and_then c (\<lambda>x. Inr (xs @ [x])))"
proof (induction cs)
  case Nil
  show ?case by (cases c) auto
next
  case (Cons a cs)
  show ?case
  proof (cases a)
    case (Inl e)
    then show ?thesis by simp
  next
    case (Inr x)
    then show ?thesis using Cons.IH
      by (cases "collect cs"; cases c) auto
  qed
qed

lemma collect_length:
  "collect cs = Inr xs \<Longrightarrow> length xs = length cs"
  by (induction cs arbitrary: xs) (auto split: sum.splits)

lemma collect_nth:
  "collect cs = Inr xs \<Longrightarrow> i < length cs \<Longrightarrow> cs ! i = Inr (xs ! i)"
proof (induction cs arbitrary: xs i)
  case Nil
  then show ?case by simp
next
  case (Cons c cs)
  then show ?case by (cases i) (auto split: sum.splits)
qed

text \<open>Batches that continue one generator stream amount to one long loop.\<close>

lemma chained_batches:
  assumes "\<And>i. i < k \<Longrightarrow> worker_state i = ((\<lambda>s. snd (permutation s)) ^^ (i * b)) st"
  shows "and_then
           (collect (map (\<lambda>i. and_then (permutation_loop permutation tc b (worker_state i))
                                  (\<lambda>(vs, st'). Inr vs)) [0..<k]))
           (\<lambda>arrays. Inr (concat arrays)) =
         and_then (permutation_loop permutation tc (k * b) st) (\<lambda>(vs, st'). Inr vs)"
  using assms
proof (induction k)
  case 0
  show ?case by simp
next
  case (Suc k)
  let ?batch = "\<lambda>i. and_then (permutation_loop permutation tc b (worker_state i))
                                  (\<lambda>(vs, st'). Inr vs)"
  have IH: "and_then (collect (map ?batch [0..<k])) (\<lambda>arrays. Inr (concat arrays)) =
         and_then (permutation_loop permutation tc (k * b) st) (\<lambda>(vs, st'). Inr vs)"
    using Suc.IH Suc.prems by simp
  have ws: "worker_state k = ((\<lambda>s. snd (permutation s)) ^^ (k * b)) st"
    using Suc.prems by simp
  have split: "Suc k * b = k * b + b" by simp
  show ?case
  proof (cases "permutation_loop permutation tc (k * b) st")
    case (Inl e)
    then have "collect (map ?batch [0..<k]) = Inl e"
      using IH by (cases "collect (map ?batch [0..<k])") auto
    then show ?thesis
      using Inl unfolding split permutation_loop_add
      by (auto simp: collect_snoc)
  next
    case (Inr r)
    obtain vs s1 where r: "r = (vs, s1)" by (cases r)
    have lp: "permutation_loop permutation tc (k * b) st = Inr (vs, s1)"
      using Inr r by simp
    have s1: "s1 = ((\<lambda>s. snd (permutation s)) ^^ (k * b)) st"
      using permutation_loop_result [OF lp] by (rule conjunct2)
    have IH': "and_then (collect (map ?batch [0..<k])) (\<lambda>arrays. Inr (concat arrays)) = Inr vs"
      unfolding IH lp by simp
    then obtain arrays where
      arr: "collect (map ?batch [0..<k]) = Inr arrays" and cc: "concat arrays = vs"
      unfolding and_then_Inr_iff by blast
    have lhs: "collect (map ?batch [0..<Suc k]) =
                 and_then (?batch k) (\<lambda>x. Inr (arrays @ [x]))"
      using arr by (simp add: collect_snoc)
    have bk: "?batch k =
                and_then (permutation_loop permutation tc b s1) (\<lambda>(vs, st'). Inr vs)"
      using ws s1 by simp
    have rhs: "permutation_loop permutation tc (Suc k * b) st =
                 and_then (permutation_loop permutation tc b s1)
                   (\<lambda>(ws, st''). Inr (vs @ ws, st''))"
      unfolding split permutation_loop_add using Inr r by simp
    show ?thesis
    proof (cases "permutation_loop permutation tc b s1")
      case (Inl e)
      then show ?thesis unfolding lhs bk rhs by simp
    next
      case last: (Inr w)
      obtain ws s2 where w: "w = (ws, s2)" by (cases w)
      show ?thesis unfolding lhs bk rhs last w by (simp add: cc)
    qed
  qed
qed

text \<open>Batches that continue one generator stream return what a single batch of all
  the iterations returns from the seeded state.\<close>

lemma single_stream_parallel:
  assumes "0 < batch_size" and "batch_size \<le> iterations" and "batch_size dvd iterations"
    and "\<And>i. i < nat (iterations div batch_size) \<Longrightarrow>
           worker_state i = ((\<lambda>s. snd (permutation s)) ^^ (i * nat batch_size)) st"
  shows "parallel_permutations permutation tc worker_state iterations batch_size =
         ttest_cluster_statistic_permuted_batch permutation tc iterations st"
proof -
  let ?k = "nat (iterations div batch_size)"
  let ?b = "nat batch_size"
  let ?batch = "\<lambda>i. and_then (permutation_loop permutation tc ?b (worker_state i))
                                  (\<lambda>(vs, st'). Inr vs)"
  have kb: "?k * ?b = nat iterations"
  proof -
    from assms(3) obtain q where q: "iterations = batch_size * q" by (auto simp: dvd_def)
    with assms(1,2) have "0 \<le> q"
      by (metis less_le_trans less_imp_le zero_le_mult_iff not_less)
    then show ?thesis using q assms(1)
      by (simp add: nat_mult_distrib mult.commute)
  qed
  have kpos: "0 < ?k"
    using assms(1,2) by (simp add: pos_imp_zdiv_pos_iff)
  have chain: "and_then (collect (map ?batch [0..<?k])) (\<lambda>arrays. Inr (concat arrays)) =
         and_then (permutation_loop permutation tc (?k * ?b) st) (\<lambda>(vs, st'). Inr vs)"
    by (rule chained_batches) (use assms(4) in simp)
  have ne: "collect (map ?batch [0..<?k]) = Inr arrays \<Longrightarrow> arrays \<noteq> []" for arrays
    using collect_length [of "map ?batch [0..<?k]" arrays] kpos by auto
  have "and_then (collect (map ?batch [0..<?k])) np_concatenate =
        and_then (collect (map ?batch [0..<?k])) (\<lambda>arrays. Inr (concat arrays))"
    using ne by (cases "collect (map ?batch [0..<?k])") (auto simp: np_concatenate_def)
  then show ?thesis
    using chain assms(1,2) unfolding kb
    by (simp add: parallel_permutations_def ttest_cluster_statistic_permuted_batch_def
        np_alloc_def)
qed

text \<open>
  C2 (amended): the code derives no permutation from a master seed and an iteration
  index; a batch draws from the generator state its worker is in. Take two
  decompositions of the same \<open>iterations\<close>, each with a batch size that is positive,
  at most \<open>iterations\<close> and divides it, and each with every batch starting in the
  state that the generator seeded by the master seed has after the draws of all
  earlier batches (the batches consume one generator stream, as when one process runs
  them in order). Then the two parallel runs return the same result, which is that of
  one batch of all the iterations run from the seeded state: the same array, hence the
  same multiset, and the same exception if an iteration raises.
\<close>

theorem single_stream_decompositions_agree:
  assumes "0 < batch_size" and "batch_size \<le> iterations" and "batch_size dvd iterations"
    and "\<And>i. i < nat (iterations div batch_size) \<Longrightarrow>
           worker_state i = ((\<lambda>s. snd (permutation s)) ^^ (i * nat batch_size)) st"
    and "0 < batch_size'" and "batch_size' \<le> iterations" and "batch_size' dvd iterations"
    and "\<And>i. i < nat (iterations div batch_size') \<Longrightarrow>
           worker_state' i = ((\<lambda>s. snd (permutation s)) ^^ (i * nat batch_size')) st"
  shows "parallel_permutations permutation tc worker_state iterations batch_size =
           parallel_permutations permutation tc worker_state' iterations batch_size'
       \<and> parallel_permutations permutation tc worker_state iterations batch_size =
           ttest_cluster_statistic_permuted_batch permutation tc iterations st"
proof -
  have a: "parallel_permutations permutation tc worker_state iterations batch_size =
           ttest_cluster_statistic_permuted_batch permutation tc iterations st"
    using assms(1,2,3,4) by (rule single_stream_parallel)
  have b: "parallel_permutations permutation tc worker_state' iterations batch_size' =
           ttest_cluster_statistic_permuted_batch permutation tc iterations st"
    using assms(5,6,7,8) by (rule single_stream_parallel)
  from a b show ?thesis by simp
qed


lemma counter_iteration:
  "iteration (\<lambda>s. (s, Suc s)) (\<lambda>y. Inr ([[0]], [real y])) st = Inr (real st, Suc st)"
  by (simp add: iteration_def abs_max_def)

lemma counter_loop:
  "permutation_loop (\<lambda>s. (s, Suc s)) (\<lambda>y. Inr ([[0]], [real y])) n st =
     Inr (map real [st..<st + n], st + n)"
proof (induction n arbitrary: st)
  case 0
  show ?case by simp
next
  case (Suc n)
  have "[st..<st + Suc n] = st # [Suc st..<Suc st + n]"
    by (simp add: upt_rec)
  then show ?case
    by (simp add: counter_iteration Suc.IH)
qed

lemma counter_batch:
  "0 \<le> b \<Longrightarrow>
   ttest_cluster_statistic_permuted_batch (\<lambda>s. (s, Suc s)) (\<lambda>y. Inr ([[0]], [real y])) b st =
     Inr (map real [st..<st + nat b])"
  by (simp add: ttest_cluster_statistic_permuted_batch_def np_alloc_def counter_loop)

text \<open>
  The amended C2 at a concrete input: a counter as generator, one cluster per
  iteration whose statistic is the drawn value, 4 iterations in batches of 2 and in
  batches of 1.
\<close>

theorem single_stream_decompositions_agree_witness:
  "parallel_permutations (\<lambda>s. (s, Suc s)) (\<lambda>y. Inr ([[0]], [real y])) (\<lambda>i. 2 * i) 4 2 =
     parallel_permutations (\<lambda>s. (s, Suc s)) (\<lambda>y. Inr ([[0]], [real y])) (\<lambda>i. i) 4 1
   \<and> parallel_permutations (\<lambda>s. (s, Suc s)) (\<lambda>y. Inr ([[0]], [real y])) (\<lambda>i. 2 * i) 4 2 =
     ttest_cluster_statistic_permuted_batch (\<lambda>s. (s, Suc s)) (\<lambda>y. Inr ([[0]], [real y])) 4 0
   \<and> ttest_cluster_statistic_permuted_batch (\<lambda>s. (s, Suc s)) (\<lambda>y. Inr ([[0]], [real y])) 4 0 =
     Inr [0, 1, 2, 3]"
proof -
  have ws: "((\<lambda>s. snd (s, Suc s)) ^^ n) 0 = n" for n :: nat
    by (simp add: Suc_funpow)
  have A: "parallel_permutations (\<lambda>s. (s, Suc s)) (\<lambda>y. Inr ([[0]], [real y])) (\<lambda>i. 2 * i) 4 2 =
     parallel_permutations (\<lambda>s. (s, Suc s)) (\<lambda>y. Inr ([[0]], [real y])) (\<lambda>i. i) 4 1
   \<and> parallel_permutations (\<lambda>s. (s, Suc s)) (\<lambda>y. Inr ([[0]], [real y])) (\<lambda>i. 2 * i) 4 2 =
     ttest_cluster_statistic_permuted_batch (\<lambda>s. (s, Suc s)) (\<lambda>y. Inr ([[0]], [real y])) 4 0"
  proof (rule single_stream_decompositions_agree)
    show "(0::int) < 2" "(2::int) \<le> 4" "(2::int) dvd 4" "(0::int) < 1" "(1::int) \<le> 4"
      "(1::int) dvd 4"
      by simp_all
    show "2 * i = ((\<lambda>s. snd (s, Suc s)) ^^ (i * nat 2)) 0" for i :: nat
      unfolding ws by simp
    show "i = ((\<lambda>s. snd (s, Suc s)) ^^ (i * nat 1)) 0" for i :: nat
      unfolding ws by simp
  qed
  have B: "ttest_cluster_statistic_permuted_batch (\<lambda>s. (s, Suc s)) (\<lambda>y. Inr ([[0]], [real y])) 4 0 =
     Inr [0, 1, 2, 3]"
    by (simp add: counter_batch upt_rec)
  show ?thesis
    by (intro conjI) (rule A [THEN conjunct1], rule A [THEN conjunct2], rule B)
qed

text \<open>
  C2 (as stated, refuted): with the same seeded generator state 0 and 2 iterations,
  one batch of 2 started in the seeded state returns the values 0, 1, while two
  batches of 1, each run by a worker that starts in the seeded state, return 0, 0.
  And even when the batches continue one generator stream, 10 iterations in batches
  of 5 return 10 values and in batches of 3 only 9. In both cases the multiset
  depends on the decomposition.
\<close>

theorem batch_decomposition_counterexample:
  "parallel_permutations (\<lambda>s. (s, Suc s)) (\<lambda>y. Inr ([[0]], [real y])) (\<lambda>i. 0) 2 2 = Inr [0, 1]
   \<and> parallel_permutations (\<lambda>s. (s, Suc s)) (\<lambda>y. Inr ([[0]], [real y])) (\<lambda>i. 0) 2 1 = Inr [0, 0]
   \<and> mset [0, 1 :: real] \<noteq> mset [0, 0]
   \<and> parallel_permutations (\<lambda>s. (s, Suc s)) (\<lambda>y. Inr ([[0]], [real y])) (\<lambda>i. 5 * i) 10 5 =
       Inr [0, 1, 2, 3, 4, 5, 6, 7, 8, 9]
   \<and> parallel_permutations (\<lambda>s. (s, Suc s)) (\<lambda>y. Inr ([[0]], [real y])) (\<lambda>i. 3 * i) 10 3 =
       Inr [0, 1, 2, 3, 4, 5, 6, 7, 8]
   \<and> mset [0, 1, 2, 3, 4, 5, 6, 7, 8, 9 :: real] \<noteq> mset [0, 1, 2, 3, 4, 5, 6, 7, 8]"
proof -
  have a: "parallel_permutations (\<lambda>s. (s, Suc s)) (\<lambda>y. Inr ([[0]], [real y])) (\<lambda>i. 0) 2 2 =
      Inr [0, 1]"
    by (simp add: parallel_permutations_def counter_batch np_concatenate_def upt_rec)
  have b: "parallel_permutations (\<lambda>s. (s, Suc s)) (\<lambda>y. Inr ([[0]], [real y])) (\<lambda>i. 0) 2 1 =
      Inr [0, 0]"
    by (simp add: parallel_permutations_def counter_batch np_concatenate_def upt_rec)
  have c: "mset [0, 1 :: real] \<noteq> mset [0, 0]"
    by simp
  have d: "parallel_permutations (\<lambda>s. (s, Suc s)) (\<lambda>y. Inr ([[0]], [real y])) (\<lambda>i. 5 * i) 10 5 =
       Inr [0, 1, 2, 3, 4, 5, 6, 7, 8, 9]"
    by (simp add: parallel_permutations_def counter_batch np_concatenate_def upt_rec)
  have e: "parallel_permutations (\<lambda>s. (s, Suc s)) (\<lambda>y. Inr ([[0]], [real y])) (\<lambda>i. 3 * i) 10 3 =
       Inr [0, 1, 2, 3, 4, 5, 6, 7, 8]"
    by (simp add: parallel_permutations_def counter_batch np_concatenate_def upt_rec)
  have "size (mset [0, 1, 2, 3, 4, 5, 6, 7, 8, 9 :: real]) \<noteq> size (mset [0, 1, 2, 3, 4, 5, 6, 7, 8 :: real])"
    by simp
  then have f: "mset [0, 1, 2, 3, 4, 5, 6, 7, 8, 9 :: real] \<noteq> mset [0, 1, 2, 3, 4, 5, 6, 7, 8]"
    by (rule contrapos_nn) (erule arg_cong)
  from a b c d e f show ?thesis by (intro conjI)
qed

text \<open>
  C3 (evaluation at the failing input): with 10 iterations and batches of 3 the
  parallel branch returns 9 values, not 10; with 5 iterations and batches of 20 no
  batch is submitted and the concatenation raises.
\<close>

theorem parallel_drops_remainder:
  "parallel_permutations (\<lambda>s. (s, Suc s)) (\<lambda>y. Inr ([[0]], [real y])) (\<lambda>i. 3 * i) 10 3 =
     Inr [0, 1, 2, 3, 4, 5, 6, 7, 8]
   \<and> length [0, 1, 2, 3, 4, 5, 6, 7, 8 :: real] = 9
   \<and> parallel_permutations (\<lambda>s. (s, Suc s)) (\<lambda>y. Inr ([[0]], [real y])) (\<lambda>i. 0) 5 20 =
     Inl ValueError"
proof -
  have a: "parallel_permutations (\<lambda>s. (s, Suc s)) (\<lambda>y. Inr ([[0]], [real y])) (\<lambda>i. 3 * i) 10 3 =
     Inr [0, 1, 2, 3, 4, 5, 6, 7, 8]"
    by (simp add: parallel_permutations_def counter_batch np_concatenate_def upt_rec)
  have c: "parallel_permutations (\<lambda>s. (s, Suc s)) (\<lambda>y. Inr ([[0]], [real y])) (\<lambda>i. 0) 5 20 =
     Inl ValueError"
    by (simp add: parallel_permutations_def np_concatenate_def)
  from a c show ?thesis by simp
qed

lemma abs_max_nonempty:
  "cluster_statistic \<noteq> [] \<Longrightarrow>
     abs_max cluster_statistic = Inr (Max (abs ` set cluster_statistic))"
  by (simp add: abs_max_def)

text \<open>
  C4 (evaluation at the failing input): the recorded value is the maximum
  absolute cluster statistic when there is a cluster, but an iteration without
  clusters raises ValueError instead of recording 0, and the batch and the whole
  parallel run abort.
\<close>

theorem no_cluster_iteration_raises:
  "abs_max [] = Inl ValueError
   \<and> abs_max [3, -5, 2] = Inr 5
   \<and> iteration (\<lambda>s. (s, Suc s)) (\<lambda>y. Inr ([], [])) (0::nat) = Inl ValueError
   \<and> ttest_cluster_statistic_permuted_batch (\<lambda>s. (s, Suc s)) (\<lambda>y. Inr ([], [])) 1 (0::nat) =
       Inl ValueError
   \<and> parallel_permutations (\<lambda>s. (s, Suc s)) (\<lambda>y. Inr ([], [])) (\<lambda>i. 0::nat) 2 1 =
       Inl ValueError"
proof -
  have it: "iteration (\<lambda>s. (s, Suc s)) (\<lambda>y. Inr ([], [])) (0::nat) = Inl ValueError"
    by (simp add: iteration_def abs_max_def)
  have "permutation_loop (\<lambda>s. (s, Suc s)) (\<lambda>y. Inr ([], [])) (Suc 0) (0::nat) = Inl ValueError"
    by (simp add: it)
  then have bt: "ttest_cluster_statistic_permuted_batch (\<lambda>s. (s, Suc s)) (\<lambda>y. Inr ([], [])) 1
      (0::nat) = Inl ValueError"
    by (simp add: ttest_cluster_statistic_permuted_batch_def np_alloc_def)
  have two: "[0..<2::nat] = [0, 1]" by (simp add: upt_rec)
  have pr: "parallel_permutations (\<lambda>s. (s, Suc s)) (\<lambda>y. Inr ([], [])) (\<lambda>i. 0::nat) 2 1 =
       Inl ValueError"
    by (simp add: parallel_permutations_def bt two)
  have "abs_max [3, -5, 2] = Inr 5" by (simp add: abs_max_def)
  moreover have "abs_max [] = Inl ValueError" by (simp add: abs_max_def)
  ultimately show ?thesis using it bt pr by simp
qed

text \<open>The sequential branch never records a value: its first iteration raises NameError
  at line 82.\<close>

lemma sequential_raises_NameError:
  "0 < iterations \<Longrightarrow> sequential_permutations permutation tc st iterations = Inl NameError"
proof -
  assume "0 < iterations"
  then obtain n where n: "nat iterations = Suc n" by (cases "nat iterations") auto
  show ?thesis
    using \<open>0 < iterations\<close>
    by (simp add: sequential_permutations_def np_alloc_def n stdout_flush_def)
qed

lemma length_concat_uniform:
  "(\<And>x. x \<in> set xss \<Longrightarrow> length x = n) \<Longrightarrow> length (concat xss) = length xss * n"
  by (induction xss) auto

lemma batch_length:
  assumes "ttest_cluster_statistic_permuted_batch permutation tc batch_size st = Inr vs"
  shows "length vs = nat batch_size"
proof -
  from assms obtain n r where n: "np_alloc batch_size = Inr n"
    and lp: "permutation_loop permutation tc n st = Inr r" and vs: "vs = fst r"
    by (auto simp: ttest_cluster_statistic_permuted_batch_def and_then_Inr_iff split: prod.splits)
  from n have "n = nat batch_size" by (auto simp: np_alloc_def split: if_splits)
  moreover have "length (fst r) = n"
    using permutation_loop_result [of permutation tc n st "fst r" "snd r"] lp by simp
  ultimately show ?thesis using vs by simp
qed

lemma parallel_length:
  assumes "parallel_permutations permutation tc worker_state iterations batch_size = Inr vs"
  shows "length vs = nat (iterations div batch_size) * nat batch_size"
proof -
  let ?cs = "map (\<lambda>i. ttest_cluster_statistic_permuted_batch permutation tc batch_size
                 (worker_state i)) [0..<nat (iterations div batch_size)]"
  from assms obtain arrays where c: "collect ?cs = Inr arrays"
    and cc: "np_concatenate arrays = Inr vs"
    by (auto simp: parallel_permutations_def and_then_Inr_iff split: if_splits)
  have len: "length arrays = nat (iterations div batch_size)"
    using collect_length [OF c] by simp
  have each: "length x = nat batch_size" if "x \<in> set arrays" for x
  proof -
    from that obtain i where i: "i < length arrays" and x: "x = arrays ! i"
      by (auto simp: in_set_conv_nth)
    have "?cs ! i = Inr x"
      using collect_nth [OF c, of i] i x len by simp
    then have "ttest_cluster_statistic_permuted_batch permutation tc batch_size
                 (worker_state i) = Inr x"
      using i len by simp
    then show ?thesis by (rule batch_length)
  qed
  from cc have "vs = concat arrays"
    by (auto simp: np_concatenate_def split: if_splits)
  then show ?thesis
    using length_concat_uniform [of arrays "nat batch_size"] each len by simp
qed

section \<open>Properties of the proximity matrices\<close>

lemma compute_boolean_proximity_matrix_unfold:
  "compute_boolean_proximity_matrix coordinates threshold =
     map (map (\<lambda>d. if d \<le> threshold then 1 else 0)) (pairwise_distances coordinates)"
  by (simp add: compute_boolean_proximity_matrix_def proximity_from_distances_def)

lemma compute_sparse_boolean_proximity_matrix_unfold:
  "compute_sparse_boolean_proximity_matrix coordinates threshold =
     (let neighbors = query_radius coordinates threshold
      in and_then
           (np_concatenate (map (\<lambda>(i, item). replicate (length item) i) (enumerate 0 neighbors)))
           (\<lambda>row. and_then (np_concatenate neighbors)
              (\<lambda>column. Inr \<lparr>nrows = length coordinates, ncols = length coordinates,
                               entries = zip row column\<rparr>)))"
  by (simp add: compute_sparse_boolean_proximity_matrix_def proximity_from_neighbors_def Let_def)

lemma compute_sparse_boolean_proximity_matrix_space_time_unfold:
  "compute_sparse_boolean_proximity_matrix_space_time coordinates n_timesteps threshold_space
       threshold_timesteps space_sparse =
     and_then
       (if space_sparse
        then and_then (compute_sparse_boolean_proximity_matrix coordinates threshold_space)
               (\<lambda>M. Inr (Sparse M))
        else Inr (Dense (compute_boolean_proximity_matrix coordinates threshold_space)))
       (\<lambda>proximity_matrix_space.
          let n_units = length coordinates;
              (x, y) = nonzero proximity_matrix_space
          in and_then (np_concatenate (map (\<lambda>t. map (\<lambda>a. a + t * n_units) x) [0..<n_timesteps]))
               (\<lambda>i. and_then
                  (np_concatenate (map (\<lambda>t. map (\<lambda>a. a + t * n_units) y) [0..<n_timesteps]))
                  (\<lambda>j. time_bands n_units n_timesteps [1..threshold_timesteps]
                          \<lparr>nrows = n_units * n_timesteps, ncols = n_units * n_timesteps,
                           entries = zip i j\<rparr>)))"
  by (simp add: compute_sparse_boolean_proximity_matrix_space_time_def space_time_matrix_def
      Let_def)

lemma euclidean_sym: "euclidean a b = euclidean b a"
proof -
  have "zip b a = map (\<lambda>(x, y). (y, x)) (zip a b)"
    by (rule zip_commute)
  then have "(\<Sum>(x, y)\<leftarrow>zip b a. (x - y)\<^sup>2) = (\<Sum>(x, y)\<leftarrow>zip a b. (y - x)\<^sup>2)"
    by (simp add: o_def case_prod_unfold)
  also have "\<dots> = (\<Sum>(x, y)\<leftarrow>zip a b. (x - y)\<^sup>2)"
    by (simp add: power2_commute)
  finally show ?thesis by (simp add: euclidean_def)
qed

lemma euclidean_self: "euclidean a a = 0"
proof -
  have "(\<Sum>(x, y)\<leftarrow>zip a a. (x - y)\<^sup>2) = 0"
    by (induction a) auto
  then show ?thesis by (simp add: euclidean_def)
qed

lemma dense_entry:
  "i < length cs \<Longrightarrow> j < length cs \<Longrightarrow>
     compute_boolean_proximity_matrix cs thr ! i ! j =
       (if euclidean (cs ! i) (cs ! j) \<le> thr then 1 else 0)"
  by (simp add: compute_boolean_proximity_matrix_unfold pairwise_distances_def)

lemma dense_shape:
  "length (compute_boolean_proximity_matrix cs thr) = length cs"
  "i < length cs \<Longrightarrow> length (compute_boolean_proximity_matrix cs thr ! i) = length cs"
  by (simp_all add: compute_boolean_proximity_matrix_unfold pairwise_distances_def)

lemma nonzero_zip: "nonzero A = (x, y) \<Longrightarrow> length x = length y"
  by (cases A) (auto simp: Let_def)

lemma in_enumerate_concat:
  "(i, j) \<in> set (concat (map (\<lambda>(i, r). map (Pair i) (f r)) (enumerate 0 m))) \<longleftrightarrow>
     i < length m \<and> j \<in> set (f (m ! i))"
proof (rule iffI)
  assume "(i, j) \<in> set (concat (map (\<lambda>(i, r). map (Pair i) (f r)) (enumerate 0 m)))"
  then show "i < length m \<and> j \<in> set (f (m ! i))"
    by (auto simp: in_set_enumerate_eq)
next
  assume R: "i < length m \<and> j \<in> set (f (m ! i))"
  then have "(i, m ! i) \<in> set (enumerate 0 m)"
    by (simp add: in_set_enumerate_eq)
  moreover have "(i, j) \<in> set (map (Pair i) (f (m ! i)))"
    using R by simp
  ultimately show "(i, j) \<in> set (concat (map (\<lambda>(i, r). map (Pair i) (f r)) (enumerate 0 m)))"
    by (auto intro!: bexI [of _ "(i, m ! i)"])
qed

lemma nonzero_dense:
  assumes "nonzero (Dense (compute_boolean_proximity_matrix cs thr)) = (x, y)"
  shows "(i, j) \<in> set (zip x y) \<longleftrightarrow>
           i < length cs \<and> j < length cs \<and> euclidean (cs ! i) (cs ! j) \<le> thr"
proof -
  let ?m = "compute_boolean_proximity_matrix cs thr"
  let ?ps = "concat (map (\<lambda>(i, r). map (\<lambda>j. (i, j)) (filter (\<lambda>j. r ! j \<noteq> 0) [0..<length r]))
                  (enumerate 0 ?m))"
  from assms have xy: "zip x y = ?ps"
    by (auto simp: Let_def zip_map_fst_snd)
  have "(i, j) \<in> set ?ps \<longleftrightarrow> i < length ?m \<and> j < length (?m ! i) \<and> ?m ! i ! j \<noteq> 0"
    using in_enumerate_concat [of i j "\<lambda>r. filter (\<lambda>j. r ! j \<noteq> 0) [0..<length r]" ?m]
    by simp
  also have "\<dots> \<longleftrightarrow> i < length cs \<and> j < length cs \<and> euclidean (cs ! i) (cs ! j) \<le> thr"
    using dense_entry [where i = i and j = j and cs = cs and thr = thr]
    by (auto simp: dense_shape split: if_splits)
  finally show ?thesis by (simp add: xy)
qed

lemma zip_concat_map:
  "(\<And>x. x \<in> set xs \<Longrightarrow> length (f x) = length (g x)) \<Longrightarrow>
     zip (concat (map f xs)) (concat (map g xs)) = concat (map (\<lambda>x. zip (f x) (g x)) xs)"
  by (induction xs) (auto simp: zip_append)

lemma zip_replicate_left: "zip (replicate (length ys) a) ys = map (Pair a) ys"
  by (induction ys) auto

lemma sparse_result:
  assumes "cs \<noteq> []"
  shows "\<exists>S. compute_sparse_boolean_proximity_matrix cs thr = Inr S \<and>
           nrows S = length cs \<and> ncols S = length cs \<and>
           (\<forall>i j. (i, j) \<in> set (entries S) \<longleftrightarrow>
                    i < length cs \<and> j < length cs \<and> euclidean (cs ! i) (cs ! j) \<le> thr)"
proof -
  let ?nb = "query_radius cs thr"
  let ?row = "concat (map (\<lambda>(i, item). replicate (length item) i) (enumerate 0 ?nb))"
  let ?col = "concat ?nb"
  have len: "length ?nb = length cs" by (simp add: query_radius_def)
  have ne: "?nb \<noteq> []" using assms len by auto
  have ne': "enumerate 0 ?nb \<noteq> []"
    using ne by (cases "query_radius cs thr") auto
  have col: "?col = concat (map snd (enumerate 0 ?nb))"
    by (simp add: map_snd_enumerate)
  have "zip ?row ?col =
          concat (map (\<lambda>p. zip ((\<lambda>(i, item). replicate (length item) i) p) (snd p)) (enumerate 0 ?nb))"
    unfolding col by (rule zip_concat_map) (auto)
  also have "\<dots> = concat (map (\<lambda>(i, item). map (Pair i) item) (enumerate 0 ?nb))"
    by (simp add: case_prod_unfold zip_replicate_left)
  finally have z: "zip ?row ?col = concat (map (\<lambda>(i, item). map (Pair i) item) (enumerate 0 ?nb))" .
  have mem: "(i, j) \<in> set (zip ?row ?col) \<longleftrightarrow>
               i < length cs \<and> j < length cs \<and> euclidean (cs ! i) (cs ! j) \<le> thr" for i j
    unfolding z using in_enumerate_concat [of i j "\<lambda>r. r" ?nb] len
    by (auto simp: query_radius_def)
  have "compute_sparse_boolean_proximity_matrix cs thr =
          Inr \<lparr>nrows = length cs, ncols = length cs, entries = zip ?row ?col\<rparr>"
    using ne ne' by (simp add: compute_sparse_boolean_proximity_matrix_unfold np_concatenate_def Let_def)
  then show ?thesis using mem by simp
qed

lemma tiles:
  assumes "length x = length y"
  shows "(r, c) \<in> set (zip (concat (map (\<lambda>t. map (\<lambda>a. a + t * n) x) [0..<nt]))
                            (concat (map (\<lambda>t. map (\<lambda>a. a + t * n) y) [0..<nt]))) \<longleftrightarrow>
         (\<exists>t a b. t < nt \<and> (a, b) \<in> set (zip x y) \<and> r = a + t * n \<and> c = b + t * n)"
proof -
  have "zip (concat (map (\<lambda>t. map (\<lambda>a. a + t * n) x) [0..<nt]))
            (concat (map (\<lambda>t. map (\<lambda>a. a + t * n) y) [0..<nt])) =
        concat (map (\<lambda>t. zip (map (\<lambda>a. a + t * n) x) (map (\<lambda>a. a + t * n) y)) [0..<nt])"
    by (rule zip_concat_map) (simp add: assms)
  also have "\<dots> = concat (map (\<lambda>t. map (\<lambda>(a, b). (a + t * n, b + t * n)) (zip x y)) [0..<nt])"
    by (simp add: zip_map_map)
  finally show ?thesis by auto
qed

lemma setitem_True:
  "nrows (setitem M a b True) = nrows M"
  "ncols (setitem M a b True) = ncols M"
  "stored (setitem M a b True) r c \<longleftrightarrow> (r = a \<and> c = b) \<or> stored M r c"
  by (auto simp: setitem_def stored_def)

lemma fold_setitem_True:
  "nrows (fold (\<lambda>i A. setitem A (f i) (g i) True) js M) = nrows M \<and>
   ncols (fold (\<lambda>i A. setitem A (f i) (g i) True) js M) = ncols M \<and>
   (stored (fold (\<lambda>i A. setitem A (f i) (g i) True) js M) r c \<longleftrightarrow>
      stored M r c \<or> (\<exists>i\<in>set js. r = f i \<and> c = g i))"
proof (induction js arbitrary: M)
  case Nil
  show ?case by simp
next
  case (Cons j js)
  have step: "fold (\<lambda>i A. setitem A (f i) (g i) True) (j # js) M =
        fold (\<lambda>i A. setitem A (f i) (g i) True) js (setitem M (f j) (g j) True)"
    by simp
  show ?case
    unfolding step using Cons.IH [of "setitem M (f j) (g j) True"]
    by (auto simp: setitem_True)
qed

lemma fold_setitem_ones:
  assumes "m \<le> len"
  shows "fold (\<lambda>i A. setitem A (f i) (g i) (replicate len True ! i)) [0..<m] M =
         fold (\<lambda>i A. setitem A (f i) (g i) True) [0..<m] M"
  by (rule fold_cong) (use assms in auto)

lemma setdiag_upper:
  assumes "nrows M = N" and "ncols M = N" and "d < N \<or> d = 0"
  shows "\<exists>M1. setdiag M (replicate (N - d) True) (int d) = Inr M1 \<and>
           nrows M1 = N \<and> ncols M1 = N \<and>
           (\<forall>r c. stored M1 r c \<longleftrightarrow> stored M r c \<or> (\<exists>i<N - d. r = i \<and> c = i + d))"
proof -
  let ?M1 = "fold (\<lambda>i A. setitem A i (i + d) True) [0..<N - d] M"
  have m: "min N (min (N - d) (N - d)) = N - d" by simp
  have "setdiag M (replicate (N - d) True) (int d) =
          Inr (fold (\<lambda>i A. setitem A i (i + d) (replicate (N - d) True ! i)) [0..<N - d] M)"
    using assms by (auto simp: setdiag_def m)
  then have "setdiag M (replicate (N - d) True) (int d) = Inr ?M1"
    by (simp add: fold_setitem_ones)
  moreover have "nrows ?M1 = N" "ncols ?M1 = N"
    using fold_setitem_True [of "\<lambda>i. i" "\<lambda>i. i + d" "[0..<N - d]" M] assms by simp_all
  moreover have "stored ?M1 r c \<longleftrightarrow> stored M r c \<or> (\<exists>i<N - d. r = i \<and> c = i + d)" for r c
    using fold_setitem_True [of "\<lambda>i. i" "\<lambda>i. i + d" "[0..<N - d]" M r c] by auto
  ultimately show ?thesis by blast
qed

lemma setdiag_lower:
  assumes "nrows M = N" and "ncols M = N" and "d < N \<or> d = 0"
  shows "\<exists>M1. setdiag M (replicate (N - d) True) (- int d) = Inr M1 \<and>
           nrows M1 = N \<and> ncols M1 = N \<and>
           (\<forall>r c. stored M1 r c \<longleftrightarrow> stored M r c \<or> (\<exists>i<N - d. r = i + d \<and> c = i))"
proof (cases "d = 0")
  case True
  from setdiag_upper [OF assms(1,2), of 0] obtain M1 where
    "setdiag M (replicate (N - 0) True) (int 0) = Inr M1" "nrows M1 = N" "ncols M1 = N"
    "\<forall>r c. stored M1 r c \<longleftrightarrow> stored M r c \<or> (\<exists>i<N - 0. r = i \<and> c = i + 0)"
    by auto
  then show ?thesis using True by auto
next
  case False
  let ?M1 = "fold (\<lambda>i A. setitem A (i + d) i True) [0..<N - d] M"
  have m: "min (N - d) (min N (N - d)) = N - d" by simp
  have "setdiag M (replicate (N - d) True) (- int d) =
          Inr (fold (\<lambda>i A. setitem A (i + d) i (replicate (N - d) True ! i)) [0..<N - d] M)"
    using assms False by (auto simp: setdiag_def m)
  then have "setdiag M (replicate (N - d) True) (- int d) = Inr ?M1"
    by (simp add: fold_setitem_ones)
  moreover have "nrows ?M1 = N" "ncols ?M1 = N"
    using fold_setitem_True [of "\<lambda>i. i + d" "\<lambda>i. i" "[0..<N - d]" M] assms by simp_all
  moreover have "stored ?M1 r c \<longleftrightarrow> stored M r c \<or> (\<exists>i<N - d. r = i + d \<and> c = i)" for r c
    using fold_setitem_True [of "\<lambda>i. i + d" "\<lambda>i. i" "[0..<N - d]" M r c] by auto
  ultimately show ?thesis by blast
qed

lemma band_arith:
  assumes "1 \<le> k" and "k < int nt"
  shows "int n * (int nt - k) = int (n * nt - n * nat k)"
    and "int n * k = int (n * nat k)"
    and "n * nat k < n * nt \<or> n * nat k = 0"
    and "n * nt - n * nat k = n * (nt - nat k)"
proof -
  from assms have k: "k = int (nat k)" "nat k < nt" by auto
  show "int n * k = int (n * nat k)" using k(1) by (metis of_nat_mult)
  show "n * nat k < n * nt \<or> n * nat k = 0" using k(2) by (cases "n = 0") auto
  show d: "n * nt - n * nat k = n * (nt - nat k)" by (simp add: diff_mult_distrib2)
  have "int n * (int nt - k) = int n * int (nt - nat k)" using k by (simp add: of_nat_diff)
  then show "int n * (int nt - k) = int (n * nt - n * nat k)" unfolding d by simp
qed

lemma band_step:
  assumes "nrows M = n * nt" and "ncols M = n * nt" and "1 \<le> k" and "k < int nt"
  shows "\<exists>M2. time_bands n nt (k # ks) M = time_bands n nt ks M2 \<and>
           nrows M2 = n * nt \<and> ncols M2 = n * nt \<and>
           (\<forall>r c. stored M2 r c \<longleftrightarrow>
              stored M r c \<or>
              (\<exists>i<n * (nt - nat k). (r = i \<and> c = i + n * nat k) \<or> (r = i + n * nat k \<and> c = i)))"
proof -
  let ?N = "n * nt" and ?d = "n * nat k"
  note ar = band_arith [OF assms(3,4), of n]
  have ones: "np_ones (int n * (int nt - k)) = Inr (replicate (?N - ?d) True)"
    unfolding ar(1) by (simp add: np_ones_def)
  from setdiag_upper [OF assms(1,2) ar(3)] obtain M1 where
    up: "setdiag M (replicate (?N - ?d) True) (int ?d) = Inr M1" and
    d1: "nrows M1 = ?N" "ncols M1 = ?N" and
    s1: "\<And>r c. stored M1 r c \<longleftrightarrow> stored M r c \<or> (\<exists>i<?N - ?d. r = i \<and> c = i + ?d)"
    by blast
  from setdiag_lower [OF d1 ar(3)] obtain M2 where
    lo: "setdiag M1 (replicate (?N - ?d) True) (- int ?d) = Inr M2" and
    d2: "nrows M2 = ?N" "ncols M2 = ?N" and
    s2: "\<And>r c. stored M2 r c \<longleftrightarrow> stored M1 r c \<or> (\<exists>i<?N - ?d. r = i + ?d \<and> c = i)"
    by blast
  have "time_bands n nt (k # ks) M = time_bands n nt ks M2"
    unfolding time_bands.simps ones ar(2) by (simp only: up lo and_then.simps)
  moreover have "stored M2 r c \<longleftrightarrow>
              stored M r c \<or>
              (\<exists>i<n * (nt - nat k). (r = i \<and> c = i + ?d) \<or> (r = i + ?d \<and> c = i))" for r c
    unfolding s2 s1 ar(4) by blast
  ultimately show ?thesis using d2 by blast
qed

lemma time_bands_result:
  assumes "nrows M = n * nt" and "ncols M = n * nt" and "\<And>k. k \<in> set ks \<Longrightarrow> 1 \<le> k \<and> k < int nt"
  shows "\<exists>M'. time_bands n nt ks M = Inr M' \<and> nrows M' = n * nt \<and> ncols M' = n * nt \<and>
           (\<forall>r c. stored M' r c \<longleftrightarrow>
              stored M r c \<or>
              (\<exists>k\<in>set ks. \<exists>i<n * (nt - nat k).
                 (r = i \<and> c = i + n * nat k) \<or> (r = i + n * nat k \<and> c = i)))"
  using assms
proof (induction ks arbitrary: M)
  case Nil
  then show ?case by simp
next
  case (Cons k ks)
  have k: "1 \<le> k" "k < int nt" using Cons.prems(3) [of k] by simp_all
  from band_step [OF Cons.prems(1,2) k, of ks] obtain M2 where
    st: "time_bands n nt (k # ks) M = time_bands n nt ks M2" and
    d2: "nrows M2 = n * nt" "ncols M2 = n * nt" and
    s2: "\<And>r c. stored M2 r c \<longleftrightarrow>
              stored M r c \<or>
              (\<exists>i<n * (nt - nat k). (r = i \<and> c = i + n * nat k) \<or> (r = i + n * nat k \<and> c = i))"
    by blast
  have rest: "\<And>k'. k' \<in> set ks \<Longrightarrow> 1 \<le> k' \<and> k' < int nt"
    using Cons.prems(3) by simp
  from Cons.IH [OF d2 rest] obtain M' where
    r: "time_bands n nt ks M2 = Inr M'" and d: "nrows M' = n * nt" "ncols M' = n * nt" and
    s: "\<And>r c. stored M' r c \<longleftrightarrow>
              stored M2 r c \<or>
              (\<exists>k\<in>set ks. \<exists>i<n * (nt - nat k).
                 (r = i \<and> c = i + n * nat k) \<or> (r = i + n * nat k \<and> c = i))"
    by blast
  have "stored M' r c \<longleftrightarrow>
              stored M r c \<or>
              (\<exists>k'\<in>set (k # ks). \<exists>i<n * (nt - nat k').
                 (r = i \<and> c = i + n * nat k') \<or> (r = i + n * nat k' \<and> c = i))" for r c
    unfolding s s2 by auto
  then show ?case using st r d by auto
qed

lemma fold_setitem_dims:
  "nrows (fold (\<lambda>i A. setitem A (f i) (g i) (h i)) js M) = nrows M \<and>
   ncols (fold (\<lambda>i A. setitem A (f i) (g i) (h i)) js M) = ncols M"
  by (induction js arbitrary: M) (simp_all add: setitem_def)

lemma setdiag_dims:
  "setdiag M vals k = Inr M1 \<Longrightarrow> nrows M1 = nrows M \<and> ncols M1 = ncols M"
  unfolding setdiag_def
  by (auto simp: fold_setitem_dims split: if_splits)

lemma setdiag_error: "setdiag M vals k = Inl e \<Longrightarrow> e = ValueError"
  unfolding setdiag_def by (auto split: if_splits)

lemma np_ones_error: "np_ones m = Inl e \<Longrightarrow> e = ValueError"
  unfolding np_ones_def by (auto split: if_splits)

lemma np_concatenate_error: "np_concatenate xs = Inl e \<Longrightarrow> e = ValueError"
  unfolding np_concatenate_def by (auto split: if_splits)

lemma and_then_Inl_iff:
  "and_then c f = Inl e \<longleftrightarrow> c = Inl e \<or> (\<exists>x. c = Inr x \<and> f x = Inl e)"
  by (cases c) auto

lemma time_bands_error:
  "time_bands n nt ks M = Inl e \<Longrightarrow> e = ValueError"
proof (induction ks arbitrary: M)
  case Nil
  then show ?case by simp
next
  case (Cons k ks)
  from Cons.prems show ?case
    unfolding time_bands.simps and_then_Inl_iff
    using np_ones_error setdiag_error Cons.IH by blast
qed

lemma time_bands_dims:
  "time_bands n nt ks M = Inr M' \<Longrightarrow> nrows M' = nrows M \<and> ncols M' = ncols M"
proof (induction ks arbitrary: M)
  case Nil
  then show ?case by simp
next
  case (Cons k ks)
  from Cons.prems obtain upper M1 lower M2 where
    "setdiag M upper (int n * k) = Inr M1"
    "setdiag M1 lower (- (int n * k)) = Inr M2"
    "time_bands n nt ks M2 = Inr M'"
    unfolding time_bands.simps and_then_Inr_iff by blast
  then show ?case
    using setdiag_dims [of M upper "int n * k" M1]
      setdiag_dims [of M1 lower "- (int n * k)" M2] Cons.IH [of M2]
    by simp
qed

lemma time_bands_offsets_in_range:
  assumes "time_bands n nt ks M = Inr M'" and "nrows M = n * nt" and "ncols M = n * nt"
    and "0 < n" and "k \<in> set ks" and "1 \<le> k"
  shows "k < int nt"
  using assms(1,2,3,5)
proof (induction ks arbitrary: M)
  case Nil
  then show ?case by simp
next
  case (Cons k' ks)
  from Cons.prems(1) obtain upper M1 lower M2 where
    up: "setdiag M upper (int n * k') = Inr M1" and
    lo: "setdiag M1 lower (- (int n * k')) = Inr M2" and
    rest: "time_bands n nt ks M2 = Inr M'"
    unfolding time_bands.simps and_then_Inr_iff by blast
  show ?case
  proof (cases "k = k'")
    case True
    have pos: "0 < int n * k" using assms(4,6) by simp
    from up True have "\<not> (int n * k > 0 \<and> int n * k \<ge> int (ncols M))"
      unfolding setdiag_def by (auto split: if_splits)
    with pos have "int n * k < int n * int nt"
      using Cons.prems(3) by simp
    then show ?thesis using assms(4) by simp
  next
    case False
    then have "k \<in> set ks" using Cons.prems(4) by simp
    moreover have "nrows M2 = n * nt" "ncols M2 = n * nt"
      using setdiag_dims [OF up] setdiag_dims [OF lo] Cons.prems(2,3) by simp_all
    ultimately show ?thesis using Cons.IH [OF rest] by blast
  qed
qed

lemma spatial_nonzero:
  assumes "space_sparse \<longrightarrow> cs \<noteq> []"
  shows "\<exists>A x y.
           (if space_sparse
            then and_then (compute_sparse_boolean_proximity_matrix cs thr) (\<lambda>M. Inr (Sparse M))
            else Inr (Dense (compute_boolean_proximity_matrix cs thr))) = Inr A \<and>
           nonzero A = (x, y) \<and> length x = length y \<and>
           (\<forall>i j. (i, j) \<in> set (zip x y) \<longleftrightarrow>
                     i < length cs \<and> j < length cs \<and> euclidean (cs ! i) (cs ! j) \<le> thr)"
proof (cases space_sparse)
  case True
  with assms have "cs \<noteq> []" by simp
  from sparse_result [OF this, of thr] obtain S where
    S: "compute_sparse_boolean_proximity_matrix cs thr = Inr S" and
    e: "\<And>i j. (i, j) \<in> set (entries S) \<longleftrightarrow>
                    i < length cs \<and> j < length cs \<and> euclidean (cs ! i) (cs ! j) \<le> thr"
    by blast
  have "nonzero (Sparse S) = (map fst (entries S), map snd (entries S))" by simp
  moreover have "zip (map fst (entries S)) (map snd (entries S)) = entries S"
    by (rule zip_map_fst_snd)
  ultimately show ?thesis using True S e by auto
next
  case False
  obtain x y where xy: "nonzero (Dense (compute_boolean_proximity_matrix cs thr)) = (x, y)"
    by (cases "nonzero (Dense (compute_boolean_proximity_matrix cs thr))")
  show ?thesis
    using False xy nonzero_zip [OF xy] nonzero_dense [OF xy] by auto
qed

lemma space_time_result:
  assumes "threshold_timesteps < int nt" and "0 < nt" and "space_sparse \<longrightarrow> cs \<noteq> []"
  shows "\<exists>M. compute_sparse_boolean_proximity_matrix_space_time cs nt thr threshold_timesteps
                 space_sparse = Inr M \<and>
           nrows M = length cs * nt \<and> ncols M = length cs * nt \<and>
           (\<forall>r c. stored M r c \<longleftrightarrow>
              (\<exists>t a b. t < nt \<and> a < length cs \<and> b < length cs \<and>
                  euclidean (cs ! a) (cs ! b) \<le> thr \<and>
                  r = a + t * length cs \<and> c = b + t * length cs) \<or>
              (\<exists>k\<in>set [1..threshold_timesteps]. \<exists>i<length cs * (nt - nat k).
                  (r = i \<and> c = i + length cs * nat k) \<or> (r = i + length cs * nat k \<and> c = i)))"
proof -
  let ?n = "length cs"
  from spatial_nonzero [OF assms(3), of thr] obtain A x y where
    A: "(if space_sparse
            then and_then (compute_sparse_boolean_proximity_matrix cs thr) (\<lambda>M. Inr (Sparse M))
            else Inr (Dense (compute_boolean_proximity_matrix cs thr))) = Inr A" and
    nz: "nonzero A = (x, y)" and len: "length x = length y" and
    adj: "\<And>i j. (i, j) \<in> set (zip x y) \<longleftrightarrow>
                     i < ?n \<and> j < ?n \<and> euclidean (cs ! i) (cs ! j) \<le> thr"
    by blast
  let ?i = "concat (map (\<lambda>t. map (\<lambda>a. a + t * ?n) x) [0..<nt])"
  let ?j = "concat (map (\<lambda>t. map (\<lambda>a. a + t * ?n) y) [0..<nt])"
  let ?M0 = "\<lparr>nrows = ?n * nt, ncols = ?n * nt, entries = zip ?i ?j\<rparr>"
  have ne: "[0..<nt] \<noteq> []" using assms(2) by simp
  have unfold: "compute_sparse_boolean_proximity_matrix_space_time cs nt thr threshold_timesteps
                 space_sparse = time_bands ?n nt [1..threshold_timesteps] ?M0"
    unfolding compute_sparse_boolean_proximity_matrix_space_time_unfold A
    using ne by (simp add: nz np_concatenate_def Let_def)
  have ks: "\<And>k. k \<in> set [1..threshold_timesteps] \<Longrightarrow> 1 \<le> k \<and> k < int nt"
    using assms(1) by auto
  have d0: "nrows ?M0 = ?n * nt" "ncols ?M0 = ?n * nt" by simp_all
  from time_bands_result [OF d0 ks] obtain M where
    M: "time_bands ?n nt [1..threshold_timesteps] ?M0 = Inr M" and
    d: "nrows M = ?n * nt" "ncols M = ?n * nt" and
    s: "\<And>r c. stored M r c \<longleftrightarrow>
              stored ?M0 r c \<or>
              (\<exists>k\<in>set [1..threshold_timesteps]. \<exists>i<?n * (nt - nat k).
                 (r = i \<and> c = i + ?n * nat k) \<or> (r = i + ?n * nat k \<and> c = i))"
    by blast
  have s0: "stored ?M0 r c \<longleftrightarrow>
              (\<exists>t a b. t < nt \<and> a < ?n \<and> b < ?n \<and> euclidean (cs ! a) (cs ! b) \<le> thr \<and>
                  r = a + t * ?n \<and> c = b + t * ?n)" for r c
    unfolding stored_def using tiles [OF len, of r c ?n nt] adj by auto
  show ?thesis
    unfolding unfold using M d s s0 by auto
qed

lemma node_unique:
  fixes n :: nat
  assumes "a < n" and "u < n" and "a + t * n = u + t' * n"
  shows "a = u \<and> t = t'"
proof -
  have "(a + t * n) mod n = (u + t' * n) mod n" using assms(3) by simp
  then have au: "a = u" using assms(1,2) by simp
  with assms(3) have "t * n = t' * n" by simp
  moreover have "0 < n" using assms(1) by simp
  ultimately show ?thesis using au by simp
qed

lemma node_bound:
  fixes n :: nat
  assumes "u < n" and "t < m"
  shows "u + t * n < n * m"
proof -
  have "u + t * n < n + t * n" using assms(1) by simp
  also have "\<dots> = Suc t * n" by simp
  also have "\<dots> \<le> m * n" using assms(2) by (intro mult_le_mono1) simp
  finally show ?thesis by (simp add: mult.commute)
qed

lemma space_time_start:
  assumes "compute_sparse_boolean_proximity_matrix_space_time cs nt thr tt sp = Inr M"
  shows "\<exists>i j. time_bands (length cs) nt [1..tt]
                 \<lparr>nrows = length cs * nt, ncols = length cs * nt, entries = zip i j\<rparr> = Inr M
               \<and> 0 < nt"
proof -
  from assms obtain A where
    rest: "(let n_units = length cs; (x, y) = nonzero A
          in and_then (np_concatenate (map (\<lambda>t. map (\<lambda>a. a + t * n_units) x) [0..<nt]))
               (\<lambda>i. and_then
                  (np_concatenate (map (\<lambda>t. map (\<lambda>a. a + t * n_units) y) [0..<nt]))
                  (\<lambda>j. time_bands n_units nt [1..tt]
                          \<lparr>nrows = n_units * nt, ncols = n_units * nt,
                           entries = zip i j\<rparr>))) = Inr M"
    unfolding compute_sparse_boolean_proximity_matrix_space_time_unfold and_then_Inr_iff
    by blast
  obtain x y where xy: "nonzero A = (x, y)" by (cases "nonzero A")
  from rest obtain i j where
    i: "np_concatenate (map (\<lambda>t. map (\<lambda>a. a + t * length cs) x) [0..<nt]) = Inr i" and
    tb: "time_bands (length cs) nt [1..tt]
           \<lparr>nrows = length cs * nt, ncols = length cs * nt, entries = zip i j\<rparr> = Inr M"
    unfolding Let_def xy prod.case and_then_Inr_iff by blast
  from i have "0 < nt"
    by (auto simp: np_concatenate_def split: if_splits)
  with tb show ?thesis by blast
qed

lemma space_time_dims:
  assumes "compute_sparse_boolean_proximity_matrix_space_time cs nt thr tt sp = Inr M"
  shows "nrows M = length cs * nt \<and> ncols M = length cs * nt"
proof -
  from space_time_start [OF assms] obtain i j where
    "time_bands (length cs) nt [1..tt]
       \<lparr>nrows = length cs * nt, ncols = length cs * nt, entries = zip i j\<rparr> = Inr M"
    by blast
  from time_bands_dims [OF this] show ?thesis by simp
qed

lemma space_time_Inr_bound:
  assumes "compute_sparse_boolean_proximity_matrix_space_time cs nt thr tt sp = Inr M"
    and "cs \<noteq> []"
  shows "tt < int nt"
proof (rule ccontr)
  assume "\<not> tt < int nt"
  from space_time_start [OF assms(1)] obtain i j where
    tb: "time_bands (length cs) nt [1..tt]
       \<lparr>nrows = length cs * nt, ncols = length cs * nt, entries = zip i j\<rparr> = Inr M"
    and nt: "0 < nt"
    by blast
  have mem: "int nt \<in> set [1..tt]" using nt \<open>\<not> tt < int nt\<close> by simp
  have "int nt < int nt"
    by (rule time_bands_offsets_in_range [OF tb _ _ _ mem]) (use assms(2) nt in simp_all)
  then show False by simp
qed

lemma space_time_nodes:
  assumes res: "compute_sparse_boolean_proximity_matrix_space_time cs nt thr tt sp = Inr M"
    and u: "u1 < length cs" "u2 < length cs" and t: "t1 < nt" "t2 < nt"
  shows "stored M (u1 + t1 * length cs) (u2 + t2 * length cs) \<longleftrightarrow>
           (t1 = t2 \<and> euclidean (cs ! u1) (cs ! u2) \<le> thr) \<or>
           (u1 = u2 \<and> t1 \<noteq> t2 \<and> \<bar>int t1 - int t2\<bar> \<le> tt)"
proof -
  let ?n = "length cs"
  have ne: "cs \<noteq> []" using u(1) by auto
  have tt: "tt < int nt" by (rule space_time_Inr_bound [OF res ne])
  have nt: "0 < nt" using t(1) by simp
  from space_time_result [OF tt nt, of sp cs thr] ne res have
    ch: "\<And>r c. stored M r c \<longleftrightarrow>
              (\<exists>t a b. t < nt \<and> a < ?n \<and> b < ?n \<and>
                  euclidean (cs ! a) (cs ! b) \<le> thr \<and>
                  r = a + t * ?n \<and> c = b + t * ?n) \<or>
              (\<exists>k\<in>set [1..tt]. \<exists>i<?n * (nt - nat k).
                  (r = i \<and> c = i + ?n * nat k) \<or> (r = i + ?n * nat k \<and> c = i))"
    by auto
  let ?r = "u1 + t1 * ?n" and ?c = "u2 + t2 * ?n"
  have block: "(\<exists>t a b. t < nt \<and> a < ?n \<and> b < ?n \<and>
                  euclidean (cs ! a) (cs ! b) \<le> thr \<and>
                  ?r = a + t * ?n \<and> ?c = b + t * ?n) \<longleftrightarrow>
               (t1 = t2 \<and> euclidean (cs ! u1) (cs ! u2) \<le> thr)"
  proof (rule iffI)
    assume "\<exists>t a b. t < nt \<and> a < ?n \<and> b < ?n \<and>
                  euclidean (cs ! a) (cs ! b) \<le> thr \<and>
                  ?r = a + t * ?n \<and> ?c = b + t * ?n"
    then obtain t' a b where a: "a < ?n" "b < ?n" "euclidean (cs ! a) (cs ! b) \<le> thr"
      "?r = a + t' * ?n" "?c = b + t' * ?n" by blast
    from node_unique [OF u(1) a(1) a(4)] node_unique [OF u(2) a(2) a(5)] a(3)
    show "t1 = t2 \<and> euclidean (cs ! u1) (cs ! u2) \<le> thr" by simp
  next
    assume "t1 = t2 \<and> euclidean (cs ! u1) (cs ! u2) \<le> thr"
    then show "\<exists>t a b. t < nt \<and> a < ?n \<and> b < ?n \<and>
                  euclidean (cs ! a) (cs ! b) \<le> thr \<and>
                  ?r = a + t * ?n \<and> ?c = b + t * ?n"
      using u t by blast
  qed
  have up: "(\<exists>k\<in>set [1..tt]. \<exists>i<?n * (nt - nat k). x + s * ?n = i \<and> x' + s' * ?n = i + ?n * nat k) \<longleftrightarrow>
            (x = x' \<and> s < s' \<and> int s' - int s \<le> tt)"
    if x: "x < ?n" "x' < ?n" and s: "s < nt" "s' < nt" for x x' s s'
  proof (rule iffI)
    assume "\<exists>k\<in>set [1..tt]. \<exists>i<?n * (nt - nat k). x + s * ?n = i \<and> x' + s' * ?n = i + ?n * nat k"
    then obtain k where k: "1 \<le> k" "k \<le> tt" and
      e: "x' + s' * ?n = x + s * ?n + ?n * nat k" by auto
    have "x' + s' * ?n = x + (s + nat k) * ?n"
      unfolding e by (simp add: algebra_simps)
    from node_unique [OF x(2) x(1) this] k
    show "x = x' \<and> s < s' \<and> int s' - int s \<le> tt" by auto
  next
    assume a: "x = x' \<and> s < s' \<and> int s' - int s \<le> tt"
    let ?k = "int (s' - s)"
    have k: "?k \<in> set [1..tt]" using a by auto
    have "s < nt - (s' - s)" using a s by linarith
    from node_bound [OF x(1) this] have b: "x + s * ?n < ?n * (nt - nat ?k)" by simp
    have "x' + s' * ?n = x + s * ?n + ?n * nat ?k"
    proof -
      have "s' = s + (s' - s)" using a by simp
      then have "s' * ?n = s * ?n + (s' - s) * ?n"
        by (metis add_mult_distrib)
      then have "x' + s' * ?n = x + s * ?n + ?n * (s' - s)"
        using a by (simp add: mult.commute)
      then show ?thesis by (simp only: nat_int)
    qed
    with k b show "\<exists>k\<in>set [1..tt]. \<exists>i<?n * (nt - nat k). x + s * ?n = i \<and> x' + s' * ?n = i + ?n * nat k"
      by blast
  qed
  have band: "(\<exists>k\<in>set [1..tt]. \<exists>i<?n * (nt - nat k).
                  (?r = i \<and> ?c = i + ?n * nat k) \<or> (?r = i + ?n * nat k \<and> ?c = i)) \<longleftrightarrow>
              (u1 = u2 \<and> t1 \<noteq> t2 \<and> \<bar>int t1 - int t2\<bar> \<le> tt)"
  proof -
    have "(\<exists>k\<in>set [1..tt]. \<exists>i<?n * (nt - nat k).
                  (?r = i \<and> ?c = i + ?n * nat k) \<or> (?r = i + ?n * nat k \<and> ?c = i)) \<longleftrightarrow>
          (\<exists>k\<in>set [1..tt]. \<exists>i<?n * (nt - nat k). ?r = i \<and> ?c = i + ?n * nat k) \<or>
          (\<exists>k\<in>set [1..tt]. \<exists>i<?n * (nt - nat k). ?c = i \<and> ?r = i + ?n * nat k)"
      by blast
    also have "\<dots> \<longleftrightarrow> (u1 = u2 \<and> t1 < t2 \<and> int t2 - int t1 \<le> tt) \<or>
                        (u2 = u1 \<and> t2 < t1 \<and> int t1 - int t2 \<le> tt)"
      unfolding up [OF u(1) u(2) t(1) t(2)] up [OF u(2) u(1) t(2) t(1)] by simp
    also have "\<dots> \<longleftrightarrow> (u1 = u2 \<and> t1 \<noteq> t2 \<and> \<bar>int t1 - int t2\<bar> \<le> tt)"
      by auto
    finally show ?thesis .
  qed
  show ?thesis unfolding ch block band by simp
qed













section \<open>Claims about the proximity matrices\<close>

lemma sparse_error: "compute_sparse_boolean_proximity_matrix cs thr = Inl e \<Longrightarrow> e = ValueError"
  unfolding compute_sparse_boolean_proximity_matrix_unfold Let_def and_then_Inl_iff
  using np_concatenate_error by blast

lemma space_time_error:
  assumes "compute_sparse_boolean_proximity_matrix_space_time cs nt thr tt sp = Inl e"
  shows "e = ValueError"
proof -
  let ?sp = "if sp
        then and_then (compute_sparse_boolean_proximity_matrix cs thr) (\<lambda>M. Inr (Sparse M))
        else Inr (Dense (compute_boolean_proximity_matrix cs thr))"
  show ?thesis
  proof (cases ?sp)
    case (Inl e')
    then have "e' = ValueError"
      using sparse_error by (auto simp: and_then_Inl_iff split: if_splits)
    moreover from assms Inl have "e = e'"
      unfolding compute_sparse_boolean_proximity_matrix_space_time_unfold by simp
    ultimately show ?thesis by simp
  next
    case (Inr A)
    obtain x y where xy: "nonzero A = (x, y)" by (cases "nonzero A")
    from assms show ?thesis
      unfolding compute_sparse_boolean_proximity_matrix_space_time_unfold Inr and_then.simps
        Let_def xy prod.case and_then_Inl_iff
      using np_concatenate_error time_bands_error by blast
  qed
qed

text \<open>
  C10: with at least one unit and \<open>1 \<le> n_timesteps \<le> threshold_timesteps\<close> the
  space-time construction raises instead of returning a matrix, whichever spatial
  strategy is used: at the offset \<open>k = n_timesteps\<close> the band is empty and its
  diagonal offset \<open>n_units * k\<close> equals the matrix dimension, which
  \<^verbatim>\<open>setdiag\<close> rejects with ValueError (an earlier offset may already have raised).
\<close>

theorem window_not_below_timesteps_raises:
  assumes "cs \<noteq> []" and "1 \<le> n_timesteps" and "int n_timesteps \<le> threshold_timesteps"
  shows "compute_sparse_boolean_proximity_matrix_space_time cs n_timesteps threshold_space
           threshold_timesteps space_sparse = Inl ValueError"
proof (cases "compute_sparse_boolean_proximity_matrix_space_time cs n_timesteps threshold_space
           threshold_timesteps space_sparse")
  case (Inl e)
  then show ?thesis using space_time_error by blast
next
  case (Inr M)
  from space_time_Inr_bound [OF Inr assms(1)] assms(3) show ?thesis by simp
qed

text \<open>With both library calls read as exact Euclidean distances, the distance matrix is
  square and symmetric with a zero diagonal, and the radius query lists \<open>j\<close> for \<open>i\<close>
  exactly when the distance entry \<open>(i, j)\<close> is within the threshold.\<close>

lemma exact_distances_symmetric:
  "list_all (\<lambda>row. length row = length (pairwise_distances cs)) (pairwise_distances cs)
   \<and> (\<forall>a<length (pairwise_distances cs). \<forall>b<length (pairwise_distances cs).
         pairwise_distances cs ! a ! b = pairwise_distances cs ! b ! a)
   \<and> (\<forall>a<length (pairwise_distances cs). pairwise_distances cs ! a ! a = 0)"
  by (simp add: pairwise_distances_def list_all_iff euclidean_self
      euclidean_sym [of "cs ! a" "cs ! b" for a b])

lemma exact_neighbors_agree:
  "i < length cs \<Longrightarrow> j < length cs \<Longrightarrow>
     (j \<in> set (query_radius cs thr ! i) \<longleftrightarrow> pairwise_distances cs ! i ! j \<le> thr)"
  by (simp add: query_radius_def pairwise_distances_def)



text \<open>
  C6 (amended): for a non-negative \<open>threshold_space\<close> and
  \<open>0 \<le> threshold_timesteps < n_timesteps\<close>, the space-time matrix is built and, for
  every unit \<open>u\<close> and timesteps \<open>t1\<close>, \<open>t2\<close> in range, the nodes
  \<open>u + t1 * n_units\<close> and \<open>u + t2 * n_units\<close> are adjacent if and only if
  \<open>|t1 - t2| \<le> threshold_timesteps\<close>.
\<close>

theorem same_unit_adjacent_iff_within_window:
  assumes "0 \<le> threshold_space" and "0 \<le> threshold_timesteps"
    and "threshold_timesteps < int n_timesteps"
    and "u < length cs" and "t1 < n_timesteps" and "t2 < n_timesteps"
  shows "\<exists>M. compute_sparse_boolean_proximity_matrix_space_time cs n_timesteps threshold_space
                threshold_timesteps space_sparse = Inr M \<and>
             (stored M (u + t1 * length cs) (u + t2 * length cs) \<longleftrightarrow>
                \<bar>int t1 - int t2\<bar> \<le> threshold_timesteps)"
proof -
  have ne: "space_sparse \<longrightarrow> cs \<noteq> []" using assms(4) by auto
  have nt: "0 < n_timesteps" using assms(5) by simp
  from space_time_result [OF assms(3) nt ne, of threshold_space] obtain M where
    res: "compute_sparse_boolean_proximity_matrix_space_time cs n_timesteps threshold_space
                threshold_timesteps space_sparse = Inr M"
    by blast
  have "stored M (u + t1 * length cs) (u + t2 * length cs) \<longleftrightarrow>
                \<bar>int t1 - int t2\<bar> \<le> threshold_timesteps"
    unfolding space_time_nodes [OF res assms(4) assms(4) assms(5) assms(6)]
    using assms(1,2) by (auto simp: euclidean_self)
  with res show ?thesis by blast
qed

lemma euclidean_le_iff:
  "euclidean a b \<le> thr \<longleftrightarrow> 0 \<le> thr \<and> (\<Sum>(x, y)\<leftarrow>zip a b. (x - y)\<^sup>2) \<le> thr\<^sup>2"
proof -
  let ?s = "\<Sum>(x, y)\<leftarrow>zip a b. (x - y)\<^sup>2"
  have nn: "0 \<le> ?s" by (rule sum_list_nonneg) auto
  show ?thesis
  proof (cases "0 \<le> thr")
    case True
    then have "sqrt ?s \<le> thr \<longleftrightarrow> sqrt ?s \<le> sqrt (thr\<^sup>2)" by simp
    also have "\<dots> \<longleftrightarrow> ?s \<le> thr\<^sup>2" by (rule real_sqrt_le_iff)
    finally show ?thesis using True by (simp add: euclidean_def)
  next
    case False
    have "0 \<le> sqrt ?s" using nn by simp
    with False have "\<not> sqrt ?s \<le> thr" by linarith
    with False show ?thesis by (simp only: euclidean_def simp_thms)
  qed
qed

lemma example_distances:
  "euclidean [0, 0] [0, 0] \<le> 3/2" "euclidean [0, 0] [0, 1] \<le> 3/2"
  "\<not> euclidean [0, 0] [5, 5] \<le> 3/2"
  "euclidean [0, 1] [0, 0] \<le> 3/2" "euclidean [0, 1] [0, 1] \<le> 3/2"
  "\<not> euclidean [0, 1] [5, 5] \<le> 3/2"
  "\<not> euclidean [5, 5] [0, 0] \<le> 3/2" "\<not> euclidean [5, 5] [0, 1] \<le> 3/2"
  "euclidean [5, 5] [5, 5] \<le> 3/2"
  unfolding euclidean_le_iff by (simp_all add: power2_eq_square)

lemma example_dense:
  "compute_boolean_proximity_matrix [[0, 0], [0, 1], [5, 5]] (3/2) =
     [[1, 1, 0], [1, 1, 0], [0, 0, 1]]"
  using example_distances
  by (simp add: compute_boolean_proximity_matrix_unfold pairwise_distances_def)

lemma example_sparse:
  "compute_sparse_boolean_proximity_matrix [[0, 0], [0, 1], [5, 5]] (3/2) =
     Inr \<lparr>nrows = 3, ncols = 3, entries = [(0, 0), (0, 1), (1, 0), (1, 1), (2, 2)]\<rparr>"
  using example_distances
  by (simp add: compute_sparse_boolean_proximity_matrix_unfold query_radius_def np_concatenate_def
      upt_rec enumerate_eq_zip)

lemma example_nonzero:
  "nonzero (Dense [[1, 1, 0], [1, 1, 0], [0, 0, 1]]) = ([0, 0, 1, 1, 2], [0, 1, 0, 1, 2])"
  by (simp add: enumerate_eq_zip)

lemma upto_one: "[1..(1::int)] = [1]"
  by (simp add: upto.simps)

lemma example_ones: "np_ones (int 3 * (int 2 - 1)) = Inr [True, True, True]"
  by (simp add: np_ones_def eval_nat_numeral)

lemma example_start:
  "compute_sparse_boolean_proximity_matrix_space_time [[0, 0], [0, 1], [5, 5]] 2 (3/2) 1 False =
     time_bands 3 2 [1]
       \<lparr>nrows = 6, ncols = 6,
        entries = [(0, 0), (0, 1), (1, 0), (1, 1), (2, 2),
                   (3, 3), (3, 4), (4, 3), (4, 4), (5, 5)]\<rparr>"
proof -
  have two: "[0..<2::nat] = [0, 1]" by (simp add: upt_rec)
  have len: "length [[0, 0], [0, 1], [5, 5::real]] = 3" by simp
  show ?thesis
    unfolding compute_sparse_boolean_proximity_matrix_space_time_unfold example_dense len
      if_False and_then.simps example_nonzero Let_def prod.case two upto_one
    by (simp add: np_concatenate_def numeral_2_eq_2 [symmetric])
qed

lemma example_upper:
  "setdiag \<lparr>nrows = 6, ncols = 6, entries = E\<rparr> [True, True, True] (int 3 * 1) =
     Inr \<lparr>nrows = 6, ncols = 6, entries = (2, 5) # (1, 4) # (0, 3) # E\<rparr>"
  by (simp add: setdiag_def setitem_def eval_nat_numeral)

lemma example_lower:
  "setdiag \<lparr>nrows = 6, ncols = 6, entries = E\<rparr> [True, True, True] (- (int 3 * 1)) =
     Inr \<lparr>nrows = 6, ncols = 6, entries = (5, 2) # (4, 1) # (3, 0) # E\<rparr>"
  by (simp add: setdiag_def setitem_def eval_nat_numeral)

lemma example_space_time:
  "compute_sparse_boolean_proximity_matrix_space_time [[0, 0], [0, 1], [5, 5]] 2 (3/2) 1 False =
     Inr \<lparr>nrows = 6, ncols = 6,
          entries = [(5, 2), (4, 1), (3, 0), (2, 5), (1, 4), (0, 3),
                     (0, 0), (0, 1), (1, 0), (1, 1), (2, 2),
                     (3, 3), (3, 4), (4, 3), (4, 4), (5, 5)]\<rparr>"
  unfolding example_start time_bands.simps example_ones and_then.simps example_upper example_lower
  by (rule refl)









text \<open>
  The amended C6 at a concrete input: three units at (0,0), (0,1) and (5,5), two
  timesteps, \<open>threshold_space = 3/2\<close>, \<open>threshold_timesteps = 1\<close>; unit 2 at timesteps
  0 and 1 (nodes 2 and 5).
\<close>

theorem same_unit_adjacent_iff_within_window_witness:
  "compute_sparse_boolean_proximity_matrix_space_time [[0, 0], [0, 1], [5, 5]] 2 (3/2) 1 False =
     Inr \<lparr>nrows = 6, ncols = 6,
          entries = [(5, 2), (4, 1), (3, 0), (2, 5), (1, 4), (0, 3),
                     (0, 0), (0, 1), (1, 0), (1, 1), (2, 2),
                     (3, 3), (3, 4), (4, 3), (4, 4), (5, 5)]\<rparr>
   \<and> (stored \<lparr>nrows = 6, ncols = 6,
          entries = [(5, 2), (4, 1), (3, 0), (2, 5), (1, 4), (0, 3),
                     (0, 0), (0, 1), (1, 0), (1, 1), (2, 2),
                     (3, 3), (3, 4), (4, 3), (4, 4), (5, 5)]\<rparr> 2 5 \<longleftrightarrow>
        \<bar>int 0 - int 1\<bar> \<le> (1::int))"
proof -
  let ?G = "[[0, 0], [0, 1], [5, 5::real]]"
  have "\<exists>M. compute_sparse_boolean_proximity_matrix_space_time ?G 2 (3/2) 1 False = Inr M \<and>
             (stored M (2 + 0 * length ?G) (2 + 1 * length ?G) \<longleftrightarrow>
                \<bar>int 0 - int 1\<bar> \<le> (1::int))"
    by (rule same_unit_adjacent_iff_within_window) simp_all
  then show ?thesis
    unfolding example_space_time by simp
qed

text \<open>
  C6 (as stated, refuted): with one unit, one timestep, \<open>threshold_space = -1\<close> and
  \<open>threshold_timesteps = 0\<close> the matrix is built and has no entry, so the node of
  unit 0 at timestep 0 is not adjacent to itself although \<open>|0 - 0| \<le> 0\<close>.
\<close>

theorem negative_space_threshold_counterexample:
  "compute_sparse_boolean_proximity_matrix_space_time [[0]] 1 (- 1) 0 False =
     Inr \<lparr>nrows = 1, ncols = 1, entries = []\<rparr>
   \<and> \<not> stored \<lparr>nrows = 1, ncols = 1, entries = []\<rparr> (0 + 0 * 1) (0 + 0 * 1)
   \<and> \<bar>int 0 - int 0\<bar> \<le> (0::int)"
proof -
  have d: "\<not> euclidean [0] [0] \<le> - 1"
    unfolding euclidean_le_iff by simp
  have "compute_boolean_proximity_matrix [[0]] (- 1) = [[0]]"
    using d by (simp add: compute_boolean_proximity_matrix_unfold pairwise_distances_def)
  then have "compute_sparse_boolean_proximity_matrix_space_time [[0]] 1 (- 1) 0 False =
     Inr \<lparr>nrows = 1, ncols = 1, entries = []\<rparr>"
    unfolding compute_sparse_boolean_proximity_matrix_space_time_unfold
    by (simp add: enumerate_eq_zip np_concatenate_def)
  then show ?thesis by (simp add: stored_def)
qed

text \<open>
  C10 at a concrete input: two timesteps with a window of 2 (dense strategy) and of
  7 (sparse strategy).
\<close>

theorem window_not_below_timesteps_raises_witness:
  "compute_sparse_boolean_proximity_matrix_space_time [[0, 0], [0, 1], [5, 5]] 2 (3/2) 2 False =
     Inl ValueError
   \<and> compute_sparse_boolean_proximity_matrix_space_time [[0, 0], [0, 1], [5, 5]] 2 (3/2) 7 True =
     Inl ValueError"
proof -
  have "compute_sparse_boolean_proximity_matrix_space_time [[0, 0], [0, 1], [5, 5]] 2 (3/2) 2 False =
     Inl ValueError"
    by (rule window_not_below_timesteps_raises) simp_all
  moreover have "compute_sparse_boolean_proximity_matrix_space_time [[0, 0], [0, 1], [5, 5]] 2 (3/2) 7 True =
     Inl ValueError"
    by (rule window_not_below_timesteps_raises) simp_all
  ultimately show ?thesis by simp
qed

section \<open>Configuration values and the node order\<close>

lemma where_le_set: "set (where_le v c) = {i. i < length v \<and> v ! i \<le> c}"
  by (auto simp: where_le_def)

text \<open>
  C9 (amended): the code has no configuration check. For every \<open>threshold_space\<close>
  (negative included) and every \<open>threshold_timesteps < n_timesteps\<close> (negative
  included), with \<open>n_timesteps > 0\<close>, the space-time construction returns a matrix;
  for every \<open>p_value_threshold\<close> (outside (0,1) included) the thresholding returns
  the indices whose p-value is at most the threshold; with \<open>iterations = 0\<close> the
  sequential permutation run returns an empty null array, and only the later lookup
  of the critical value raises IndexError.
\<close>

theorem no_configuration_check:
  assumes "threshold_timesteps < int n_timesteps" and "0 < n_timesteps"
    and "space_sparse \<longrightarrow> cs \<noteq> []"
  shows "(\<exists>M. compute_sparse_boolean_proximity_matrix_space_time cs n_timesteps threshold_space
               threshold_timesteps space_sparse = Inr M \<and>
             nrows M = length cs * n_timesteps \<and> ncols M = length cs * n_timesteps)
       \<and> set (where_le p p_value_threshold) = {i. i < length p \<and> p ! i \<le> p_value_threshold}
       \<and> sequential_permutations permutation tc st 0 = Inr []
       \<and> cluster_statistic_threshold [] 0 p_value_threshold = Inl IndexError"
proof -
  have "\<exists>M. compute_sparse_boolean_proximity_matrix_space_time cs n_timesteps threshold_space
               threshold_timesteps space_sparse = Inr M \<and>
             nrows M = length cs * n_timesteps \<and> ncols M = length cs * n_timesteps"
    using space_time_result [OF assms, of threshold_space] by blast
  moreover have "sequential_permutations permutation tc st 0 = Inr []"
    by (simp add: sequential_permutations_def np_alloc_def)
  moreover have "cluster_statistic_threshold [] 0 p_value_threshold = Inl IndexError"
    by (simp add: cluster_statistic_threshold_def getitem_def)
  ultimately show ?thesis by (simp add: where_le_set)
qed

text \<open>
  The amended C9 at a concrete input with a negative spatial threshold, a negative
  temporal window and a p-value threshold of 2.
\<close>

theorem no_configuration_check_witness:
  "(\<exists>M. compute_sparse_boolean_proximity_matrix_space_time [[0], [1]] 2 (- 3) (- 1) False = Inr M \<and>
        nrows M = 4 \<and> ncols M = 4)
   \<and> set (where_le [1/2, 3] 2) = {i. i < length [1/2, 3::real] \<and> [1/2, 3::real] ! i \<le> 2}
   \<and> sequential_permutations (\<lambda>s. (s, Suc s)) (\<lambda>y. Inr ([[0]], [real y])) 0 0 = Inr []
   \<and> cluster_statistic_threshold [] 0 2 = Inl IndexError"
  using no_configuration_check [where cs = "[[0], [1]]" and n_timesteps = 2
      and threshold_space = "- 3" and threshold_timesteps = "- 1" and space_sparse = False
      and p = "[1/2, 3]" and p_value_threshold = 2
      and permutation = "\<lambda>s. (s, Suc s)" and tc = "\<lambda>y. Inr ([[0]], [real y])" and st = 0]
  by simp

text \<open>
  C9 (as stated, refuted): a negative \<open>threshold_space\<close>, a negative
  \<open>threshold_timesteps\<close>, a p-value threshold of 2 and \<open>iterations = 0\<close> are each
  accepted and computed with, not rejected.
\<close>

theorem invalid_configuration_accepted_counterexample:
  "compute_sparse_boolean_proximity_matrix_space_time [[0], [1]] 1 (- 3) 0 False =
     Inr \<lparr>nrows = 2, ncols = 2, entries = []\<rparr>
   \<and> compute_sparse_boolean_proximity_matrix_space_time [[0], [1]] 1 2 (- 1) False =
     Inr \<lparr>nrows = 2, ncols = 2, entries = [(0, 0), (0, 1), (1, 0), (1, 1)]\<rparr>
   \<and> where_le [1/2, 3, 1] 2 = [0, 2]
   \<and> sequential_permutations (\<lambda>s. (s, Suc s)) (\<lambda>y. Inr ([[0]], [real y])) (0::nat) 0 = Inr []"
proof -
  have far: "\<not> euclidean [0] [0] \<le> - 3" "\<not> euclidean [0] [1] \<le> - 3"
    "\<not> euclidean [1] [0] \<le> - 3" "\<not> euclidean [1] [1] \<le> - 3"
    unfolding euclidean_le_iff by simp_all
  have near: "euclidean [0] [0] \<le> 2" "euclidean [0] [1] \<le> 2"
    "euclidean [1] [0] \<le> 2" "euclidean [1] [1] \<le> 2"
    unfolding euclidean_le_iff by simp_all
  have d1: "compute_boolean_proximity_matrix [[0], [1]] (- 3) = [[0, 0], [0, 0]]"
    using far by (simp add: compute_boolean_proximity_matrix_unfold pairwise_distances_def)
  have d2: "compute_boolean_proximity_matrix [[0], [1]] 2 = [[1, 1], [1, 1]]"
    using near by (simp add: compute_boolean_proximity_matrix_unfold pairwise_distances_def)
  have a: "compute_sparse_boolean_proximity_matrix_space_time [[0], [1]] 1 (- 3) 0 False =
     Inr \<lparr>nrows = 2, ncols = 2, entries = []\<rparr>"
    unfolding compute_sparse_boolean_proximity_matrix_space_time_unfold d1
    by (simp add: enumerate_eq_zip np_concatenate_def)
  have b: "compute_sparse_boolean_proximity_matrix_space_time [[0], [1]] 1 2 (- 1) False =
     Inr \<lparr>nrows = 2, ncols = 2, entries = [(0, 0), (0, 1), (1, 0), (1, 1)]\<rparr>"
    unfolding compute_sparse_boolean_proximity_matrix_space_time_unfold d2
    by (simp add: enumerate_eq_zip np_concatenate_def)
  have c: "where_le [1/2, 3, 1] 2 = [0, 2]"
    by (simp add: where_le_def upt_rec)
  have d: "sequential_permutations (\<lambda>s. (s, Suc s)) (\<lambda>y. Inr ([[0]], [real y])) (0::nat) 0 = Inr []"
    by (simp add: sequential_permutations_def np_alloc_def)
  from a b c d show ?thesis by simp
qed



section \<open>Thresholding and the node order\<close>







end
